theory Spec2Isabelle
  imports Complex_Main "HOL-Library.Sublist" "HOL-Library.Code_Target_Nat"
begin

section \<open>Paws and Tails: the logic of js/main.js\<close>

text \<open>
  The development embeds the four pieces of logic of \<^verbatim>\<open>js/main.js\<close>: the age parser
  (\<^verbatim>\<open>Utils.parseAgeToWeeks\<close>), the filter engine (\<^verbatim>\<open>FilterManager\<close>), the paginator
  (\<^verbatim>\<open>PaginationManager\<close>) and the price calculation of the order page
  (\<^verbatim>\<open>OrderPage.getShippingCost\<close> and the change handler of the delivery option).

  Conventions of the embedding.
  \<^item> A JavaScript string is a \<open>string\<close>; a \<open>char\<close> stands for the code unit of the same
    number, so the strings covered are those over U+0000 .. U+00FF.
  \<^item> The numbers the program is configured with (prices, surcharges, bounds of age
    ranges, page numbers) are whole numbers far below \<open>2^53\<close> and are of type \<open>int\<close>. A
    number that \<^verbatim>\<open>parseInt\<close> reads from text is a double: it is a \<open>js_number\<close>, the
    whole number rounded to the nearest double, an infinity, or the negative zero;
    \<open>NaN\<close> is \<open>None\<close>.
  \<^item> An object literal is an association list of its own properties; a property read
    \<^verbatim>\<open>obj[key]\<close> also sees the properties every object literal inherits from
    \<^verbatim>\<open>Object.prototype\<close>.
\<close>

subsection \<open>JavaScript values\<close>

datatype js_value =
    JUndefined
  | JNull
  | JBool bool
  | JNum int
  | JStr string
  | JObj string  \<comment> \<open>an object, identified by a name\<close>
  | JFun string  \<comment> \<open>a function, identified by a name\<close>

fun truthy :: "js_value \<Rightarrow> bool" where
  "truthy JUndefined = False"
| "truthy JNull = False"
| "truthy (JBool b) = b"
| "truthy (JNum n) = (n \<noteq> 0)"
| "truthy (JStr s) = (s \<noteq> [])"
| "truthy (JObj k) = True"
| "truthy (JFun k) = True"

fun typeof :: "js_value \<Rightarrow> string" where
  "typeof JUndefined = ''undefined''"
| "typeof JNull = ''object''"
| "typeof (JBool b) = ''boolean''"
| "typeof (JNum n) = ''number''"
| "typeof (JStr s) = ''string''"
| "typeof (JObj k) = ''object''"
| "typeof (JFun k) = ''function''"

subsection \<open>String built-ins used by the age parser\<close>

text \<open>White space and line terminators, as \<^verbatim>\<open>String.prototype.trim\<close> and \<^verbatim>\<open>parseInt\<close>
  strip them: TAB, LF, VT, FF, CR, SPACE and NBSP.\<close>

definition StrWhiteSpaceChar :: "char \<Rightarrow> bool" where
  "StrWhiteSpaceChar c =
     (let n = (of_char c :: nat)
      in n = 9 \<or> n = 10 \<or> n = 11 \<or> n = 12 \<or> n = 13 \<or> n = 32 \<or> n = 160)"

definition trim :: "string \<Rightarrow> string" where
  "trim s = rev (dropWhile StrWhiteSpaceChar (rev (dropWhile StrWhiteSpaceChar s)))"

definition lowerChar :: "char \<Rightarrow> char" where
  "lowerChar c =
     (let n = (of_char c :: nat)
      in if (65 \<le> n \<and> n \<le> 90) \<or> (192 \<le> n \<and> n \<le> 222 \<and> n \<noteq> 215)
         then char_of (n + 32) else c)"

definition toLowerCase :: "string \<Rightarrow> string" where
  "toLowerCase s = map lowerChar s"

text \<open>\<^verbatim>\<open>s.split(sep)\<close> for a separator of one character: every occurrence of the
  separator ends a part, so two separators in a row enclose an empty part and the empty
  string has the single part \<open>''''\<close>.\<close>

fun splitOn :: "char \<Rightarrow> string \<Rightarrow> string list" where
  "splitOn sep [] = [[]]"
| "splitOn sep (c # cs) =
     (if c = sep then [] # splitOn sep cs
      else (case splitOn sep cs of
              [] \<Rightarrow> [[c]]
            | part # parts \<Rightarrow> (c # part) # parts))"

text \<open>\<^verbatim>\<open>s.includes(t)\<close>: \<open>t\<close> occurs in \<open>s\<close> as a contiguous substring.\<close>

fun includesStr :: "string \<Rightarrow> string \<Rightarrow> bool" where
  "includesStr [] t = (t = [])"
| "includesStr (c # cs) t = (prefix t (c # cs) \<or> includesStr cs t)"

subsection \<open>parseInt without a radix argument\<close>

definition digitOf :: "char \<Rightarrow> nat option" where
  "digitOf c =
     (let n = (of_char c :: nat)
      in if 48 \<le> n \<and> n \<le> 57 then Some (n - 48)
         else if 97 \<le> n \<and> n \<le> 122 then Some (n - 87)
         else if 65 \<le> n \<and> n \<le> 90 then Some (n - 55)
         else None)"

definition isRadixDigit :: "nat \<Rightarrow> char \<Rightarrow> bool" where
  "isRadixDigit R c = (case digitOf c of None \<Rightarrow> False | Some d \<Rightarrow> d < R)"

definition mathInt :: "nat \<Rightarrow> string \<Rightarrow> nat" where
  "mathInt R Z =
     foldl (\<lambda>acc c. case digitOf c of None \<Rightarrow> acc | Some d \<Rightarrow> acc * R + d) 0 Z"

text \<open>The Number values that whole numbers give: a whole number that is a double, the
  negative zero, and the two infinities.\<close>

datatype js_number = Finite int | NegativeZero | PlusInfinity | MinusInfinity

text \<open>The number of binary digits of a natural number.\<close>

fun bitLength :: "nat \<Rightarrow> nat" where
  "bitLength m = (if m = 0 then 0 else Suc (bitLength (m div 2)))"

declare bitLength.simps [simp del]

text \<open>The double nearest to a natural number. Below \<open>2^53\<close> every natural number is a
  double. Above, a double keeps the leading 53 binary digits \<open>q\<close>: the remainder \<open>r\<close> is
  rounded to the nearest, a tie to the even \<open>q\<close>; a result of \<open>2^1024\<close> or more is
  infinite (\<open>None\<close>). For a numeral of more than 20 significant digits ECMAScript lets
  an engine approximate the value; the exact value is taken here.\<close>

definition roundToDouble :: "nat \<Rightarrow> nat option" where
  "roundToDouble m =
     (if m < 2 ^ 53 then Some m
      else (let e = bitLength m - 53;
                q = m div 2 ^ e;
                r = m mod 2 ^ e;
                half = 2 ^ (e - 1);
                q' = (if half < r \<or> (r = half \<and> odd q) then q + 1 else q);
                v = q' * 2 ^ e
            in if 2 ^ 1024 \<le> v then None else Some v))"

text \<open>A sign and a magnitude that is a double: minus zero is the negative zero.\<close>

definition signedInteger :: "bool \<Rightarrow> nat \<Rightarrow> js_number" where
  "signedInteger negative v =
     (if negative then (if v = 0 then NegativeZero else Finite (- int v)) else Finite (int v))"

text \<open>The Number value of a sign and a magnitude.\<close>

definition numberOf :: "bool \<Rightarrow> nat \<Rightarrow> js_number" where
  "numberOf negative m =
     (case roundToDouble m of
        None \<Rightarrow> (if negative then MinusInfinity else PlusInfinity)
      | Some v \<Rightarrow> signedInteger negative v)"

text \<open>\<^verbatim>\<open>value * 4\<close>: the exact product, rounded to a double.\<close>

fun timesFour :: "js_number \<Rightarrow> js_number" where
  "timesFour (Finite a) = numberOf (a < 0) (nat \<bar>a\<bar> * 4)"
| "timesFour NegativeZero = NegativeZero"
| "timesFour PlusInfinity = PlusInfinity"
| "timesFour MinusInfinity = MinusInfinity"

text \<open>\<^verbatim>\<open>x >= k\<close> and \<^verbatim>\<open>x <= k\<close> for a whole number \<open>k\<close>.\<close>

fun numGe :: "js_number \<Rightarrow> int \<Rightarrow> bool" where
  "numGe (Finite a) k = (k \<le> a)"
| "numGe NegativeZero k = (k \<le> 0)"
| "numGe PlusInfinity k = True"
| "numGe MinusInfinity k = False"

fun numLe :: "js_number \<Rightarrow> int \<Rightarrow> bool" where
  "numLe (Finite a) k = (a \<le> k)"
| "numLe NegativeZero k = (0 \<le> k)"
| "numLe PlusInfinity k = False"
| "numLe MinusInfinity k = True"

text \<open>The steps of \<^verbatim>\<open>parseInt(string)\<close>: skip leading white space, read a sign, switch to
  radix 16 on a \<^verbatim>\<open>0x\<close> or \<^verbatim>\<open>0X\<close> prefix (the radix argument is absent), keep the longest
  prefix of digits of the radix; no digit at all is \<open>NaN\<close>; otherwise the result is the
  Number value of the sign and the digits.\<close>

definition parseInt :: "string \<Rightarrow> js_number option" where
  "parseInt inputString =
     (let S = dropWhile StrWhiteSpaceChar inputString;
          negative = (S \<noteq> [] \<and> hd S = CHR ''-'');
          S1 = (if S \<noteq> [] \<and> (hd S = CHR ''+'' \<or> hd S = CHR ''-'') then tl S else S);
          hex = (take 2 S1 = ''0x'' \<or> take 2 S1 = ''0X'');
          R = (if hex then 16 else 10);
          S2 = (if hex then drop 2 S1 else S1);
          Z = takeWhile (isRadixDigit R) S2
      in if Z = [] then None else Some (numberOf negative (mathInt R Z)))"

subsection \<open>Utils.parseAgeToWeeks\<close>

definition parseAgeToWeeks :: "js_value \<Rightarrow> js_number" where
  "parseAgeToWeeks ageString =
     (if \<not> truthy ageString \<or> typeof ageString \<noteq> ''string'' then Finite 0
      else (case ageString of
              JStr s \<Rightarrow>
                (let parts = splitOn CHR '' '' (toLowerCase (trim s))
                 in if length parts < 2 then Finite 0
                    else (case parseInt (parts ! 0) of
                            None \<Rightarrow> Finite 0
                          | Some v \<Rightarrow>
                              (let unit = parts ! 1
                               in if includesStr unit ''week'' then v
                                  else if includesStr unit ''month'' then timesFour v
                                  else Finite 0)))
            | _ \<Rightarrow> Finite 0))"

subsection \<open>Decimal numerals and tokens\<close>

text \<open>The decimal numeral of a natural number, as \<^verbatim>\<open>String(n)\<close> writes it: no sign, no
  leading zero. It is the \<open>N\<close> of an age string \<open>''N weeks''\<close>.\<close>

definition digitChar :: "nat \<Rightarrow> char" where
  "digitChar d = char_of (48 + d)"

fun decimal :: "nat \<Rightarrow> string" where
  "decimal n = (if n < 10 then [digitChar n] else decimal (n div 10) @ [digitChar (n mod 10)])"

declare decimal.simps [simp del]

text \<open>A token: a non-empty string without white space.\<close>

definition isToken :: "string \<Rightarrow> bool" where
  "isToken t = (t \<noteq> [] \<and> list_all (\<lambda>c. \<not> StrWhiteSpaceChar c) t)"

text \<open>A token is non-numeric when, after an optional sign, it does not start with a
  decimal digit.\<close>

definition nonNumeric :: "string \<Rightarrow> bool" where
  "nonNumeric t =
     (case (if t \<noteq> [] \<and> (hd t = CHR ''+'' \<or> hd t = CHR ''-'') then tl t else t) of
        [] \<Rightarrow> True
      | c # cs \<Rightarrow> \<not> isRadixDigit 10 c)"

subsection \<open>Property reads on object literals\<close>

text \<open>The properties of \<^verbatim>\<open>Object.prototype\<close> in a browser: every object literal
  inherits them, and \<^verbatim>\<open>obj[key]\<close> returns them when \<open>obj\<close> has no own property \<open>key\<close>.
  All of them are functions, except \<^verbatim>\<open>__proto__\<close>, which reads as the prototype object
  itself.\<close>

definition Object_prototype :: "(string \<times> js_value) list" where
  "Object_prototype =
     [(''constructor'', JFun ''Object''),
      (''hasOwnProperty'', JFun ''hasOwnProperty''),
      (''isPrototypeOf'', JFun ''isPrototypeOf''),
      (''propertyIsEnumerable'', JFun ''propertyIsEnumerable''),
      (''toLocaleString'', JFun ''toLocaleString''),
      (''toString'', JFun ''toString''),
      (''valueOf'', JFun ''valueOf''),
      (''__defineGetter__'', JFun ''__defineGetter__''),
      (''__defineSetter__'', JFun ''__defineSetter__''),
      (''__lookupGetter__'', JFun ''__lookupGetter__''),
      (''__lookupSetter__'', JFun ''__lookupSetter__''),
      (''__proto__'', JObj ''Object.prototype'')]"

datatype 'a property = Absent | Own 'a | Inherited js_value

definition getProp :: "(string \<times> 'a) list \<Rightarrow> string \<Rightarrow> 'a property" where
  "getProp obj key =
     (case map_of obj key of
        Some v \<Rightarrow> Own v
      | None \<Rightarrow> (case map_of Object_prototype key of
                   Some w \<Rightarrow> Inherited w
                 | None \<Rightarrow> Absent))"

subsection \<open>APP_CONFIG\<close>

definition itemsPerPage :: int where
  "itemsPerPage = 10"

definition maxVisiblePages :: int where
  "maxVisiblePages = 5"

definition shipping :: "(string \<times> int) list" where
  "shipping = [(''pickup'', 0), (''standard'', 150), (''handDelivery'', 350)]"

record age_range =
  range_min :: int
  range_max :: int
  range_unit :: string

definition ageRanges :: "(string \<times> age_range) list" where
  "ageRanges =
     [(''8-12 weeks'', \<lparr>range_min = 8, range_max = 12, range_unit = ''weeks''\<rparr>),
      (''3-6 months'', \<lparr>range_min = 12, range_max = 24, range_unit = ''weeks''\<rparr>)]"

subsection \<open>The catalog\<close>

record puppy =
  puppy_id :: string
  name :: string
  breed :: string
  age :: string
  gender :: string
  price :: int
  description :: string
  vaccinations :: string
  image_src :: string

definition puppies :: "puppy list" where
  "puppies = [
  \<lparr>puppy_id = ''cc01'', name = ''Rocco'', breed = ''Cane Corso'', age = ''11 weeks'',
    gender = ''Male'', price = 1500,
    description = ''Playful and affectionate, Rocco has a very good temperament, good with kids and other pets too.'',
    vaccinations = ''Up to date'',
    image_src = ''./Corso/Business Suite_creation_855328826572794.jpeg''\<rparr>,
  \<lparr>puppy_id = ''cc02'', name = ''Kane'', breed = ''Cane Corso'', age = ''11 weeks'',
    gender = ''Male'', price = 1500,
    description = ''Sweet and gentle, Kane has a wonderful temperament and loves to play.'',
    vaccinations = ''Up to date'',
    image_src = ''./Corso/Business Suite_creation_848356240607671.jpeg''\<rparr>,
  \<lparr>puppy_id = ''cc03'', name = ''Jack'', breed = ''Cane Corso'', age = ''11 weeks'',
    gender = ''Male'', price = 1500,
    description = ''Playful and affectionate, Jack has a very good temperament, good with kids and other pets too. Amazing Silver color.'',
    vaccinations = ''Up to date'',
    image_src = ''./Corso/Business Suite_creation_1074296697363514.jpeg''\<rparr>,
  \<lparr>puppy_id = ''cc04'', name = ''Blake'', breed = ''Cane Corso'', age = ''11 weeks'',
    gender = ''Male'', price = 1500,
    description = ''Energetic and curious, Blake is always ready for an adventure.'',
    vaccinations = ''Up to date'',
    image_src = ''./Corso/ins_link_CA3PXN1BGax_1.jpg''\<rparr>,
  \<lparr>puppy_id = ''cc05'', name = ''Luna'', breed = ''Cane Corso'', age = ''11 weeks'',
    gender = ''Female'', price = 1800,
    description = ''Intelligent and elegant, Luna is quick to learn and loves attention.'',
    vaccinations = ''Up to date'',
    image_src = ''./Corso/luna.JPG''\<rparr>,
  \<lparr>puppy_id = ''cc06'', name = ''Miya'', breed = ''Cane Corso'', age = ''10 weeks'',
    gender = ''Female'', price = 1800,
    description = ''Friendly and outgoing, Miya has a great nose and loves to explore.'',
    vaccinations = ''Up to date'',
    image_src = ''./Corso/Miya.jpg''\<rparr>,
  \<lparr>puppy_id = ''cc07'', name = ''Lexi'', breed = ''Cane Corso'', age = ''10 weeks'',
    gender = ''Female'', price = 1800,
    description = ''Beautiful all black puppy with a playful spirit, Lexi is full of energy.'',
    vaccinations = ''Up to date'',
    image_src = ''./Corso/Lexi.jpg''\<rparr>,
  \<lparr>puppy_id = ''cc08'', name = ''Lucy'', breed = ''Cane Corso'', age = ''10 weeks'',
    gender = ''Female'', price = 1800,
    description = ''Beautiful all black puppy with a playful spirit, Lucy is full of Love.'',
    vaccinations = ''Up to date'',
    image_src = ''./Corso/Lucy.jpg''\<rparr>,
  \<lparr>puppy_id = ''ab01'', name = ''Brutus'', breed = ''American Bully'', age = ''10 weeks'',
    gender = ''Male'', price = 2000,
    description = ''Confident and friendly, a true gentle giant. Great family protector.'',
    vaccinations = ''Up to date'',
    image_src = ''./Bully/ins_link_CpAFGY9oyjV_0.jpg''\<rparr>,
  \<lparr>puppy_id = ''ab02'', name = ''Xena'', breed = ''American Bully'', age = ''9 weeks'',
    gender = ''Female'', price = 2200,
    description = ''Loyal and courageous with a heart of gold. Loves to cuddle.'',
    vaccinations = ''Up to date'',
    image_src = ''./Bully/ins_link_CpAFGY9oyjV_1.jpg''\<rparr>,
  \<lparr>puppy_id = ''fr01'', name = ''Gaston'', breed = ''French Bulldog'', age = ''8 weeks'',
    gender = ''Male'', price = 2500,
    description = ''Charming and playful with an irresistible personality. Loves attention.'',
    vaccinations = ''Up to date'',
    image_src = ''./frenchie/sample.jpg''\<rparr>,
  \<lparr>puppy_id = ''st01'', name = ''Rocky'', breed = ''Staffy'', age = ''12 weeks'',
    gender = ''Male'', price = 1200,
    description = ''Energetic and brave, an excellent companion for an active family.'',
    vaccinations = ''Up to date'',
    image_src = ''./Staffy/Screenshot_20250805-002514.png''\<rparr>]"

subsection \<open>FilterManager\<close>

text \<open>The three select elements of the page, each with its current value, or \<open>None\<close>
  when the page has no element of that id.\<close>

record document =
  breed_filter :: "string option"
  age_filter :: "string option"
  gender_filter :: "string option"

record filters =
  filter_breed :: string
  filter_age :: string
  filter_gender :: string

definition getFilterValue :: "string option \<Rightarrow> string" where
  "getFilterValue element = (case element of Some v \<Rightarrow> v | None \<Rightarrow> ''all'')"

definition getActiveFilters :: "document \<Rightarrow> filters" where
  "getActiveFilters doc =
     \<lparr>filter_breed = getFilterValue (breed_filter doc),
      filter_age = getFilterValue (age_filter doc),
      filter_gender = getFilterValue (gender_filter doc)\<rparr>"

definition matchesBreedFilter :: "puppy \<Rightarrow> string \<Rightarrow> bool" where
  "matchesBreedFilter p breedFilter = (breedFilter = ''all'' \<or> breed p = breedFilter)"

text \<open>\<^verbatim>\<open>APP_CONFIG.ageRanges[ageFilter]\<close> is a property read. An inherited value is
  truthy, so the early return is not taken; its \<^verbatim>\<open>min\<close> is \<^verbatim>\<open>undefined\<close>, and
  \<^verbatim>\<open>x >= undefined\<close> is false for every number.\<close>

definition matchesAgeFilter :: "puppy \<Rightarrow> string \<Rightarrow> bool" where
  "matchesAgeFilter p ageFilter =
     (if ageFilter = ''all'' then True
      else (let puppyAgeInWeeks = parseAgeToWeeks (JStr (age p))
            in case getProp ageRanges ageFilter of
                 Absent \<Rightarrow> True
               | Own ageRange \<Rightarrow>
                   numGe puppyAgeInWeeks (range_min ageRange) \<and>
                   numLe puppyAgeInWeeks (range_max ageRange)
               | Inherited v \<Rightarrow> (if truthy v then False else True)))"

definition matchesGenderFilter :: "puppy \<Rightarrow> string \<Rightarrow> bool" where
  "matchesGenderFilter p genderFilter = (genderFilter = ''all'' \<or> gender p = genderFilter)"

definition applyFilters :: "document \<Rightarrow> puppy list \<Rightarrow> puppy list" where
  "applyFilters doc ps =
     (let fs = getActiveFilters doc
      in filter (\<lambda>p. matchesBreedFilter p (filter_breed fs) \<and>
                      matchesAgeFilter p (filter_age fs) \<and>
                      matchesGenderFilter p (filter_gender fs)) ps)"

subsection \<open>PaginationManager\<close>

text \<open>\<^verbatim>\<open>items.slice(start, end)\<close>: a negative bound counts from the end of the array,
  both bounds are clipped to the array, and an empty range gives the empty array.\<close>

definition slice :: "'a list \<Rightarrow> int \<Rightarrow> int \<Rightarrow> 'a list" where
  "slice items start end =
     (let len = int (length items);
          k = (if start < 0 then max (len + start) 0 else min start len);
          final = (if end < 0 then max (len + end) 0 else min end len)
      in take (nat (final - k)) (drop (nat k) items))"

record pagination_manager =
  currentPage :: int

definition getItemsForPage :: "'a list \<Rightarrow> int \<Rightarrow> 'a list" where
  "getItemsForPage items page =
     (let start = (page - 1) * itemsPerPage;
          end = start + itemsPerPage
      in slice items start end)"

definition reset :: "pagination_manager \<Rightarrow> pagination_manager" where
  "reset pm = pm\<lparr>currentPage := 1\<rparr>"

text \<open>\<^verbatim>\<open>Math.ceil(items.length / itemsPerPage)\<close>.\<close>

definition pageCount :: "'a list \<Rightarrow> int" where
  "pageCount items = \<lceil>real (length items) / real_of_int itemsPerPage\<rceil>"

datatype item_text = Laquo | Raquo | PageNumber int

datatype aria_label = Previous | Next | Page int

record pagination_item =
  item_text :: item_text
  item_page :: int
  item_disabled :: bool
  item_ariaLabel :: aria_label
  item_active :: bool

definition createPaginationItem ::
  "item_text \<Rightarrow> int \<Rightarrow> bool \<Rightarrow> aria_label \<Rightarrow> bool \<Rightarrow> pagination_item" where
  "createPaginationItem txt page disabled ariaLabel active =
     \<lparr>item_text = txt, item_page = page, item_disabled = disabled,
      item_ariaLabel = ariaLabel, item_active = active\<rparr>"

text \<open>The loop \<^verbatim>\<open>for (let i = startPage; i <= endPage; i++)\<close> of \<^verbatim>\<open>render\<close>.\<close>

function pageNumberItems :: "int \<Rightarrow> int \<Rightarrow> int \<Rightarrow> pagination_item list" where
  "pageNumberItems cur i endPage =
     (if i \<le> endPage
      then createPaginationItem (PageNumber i) i False (Page i) (i = cur)
             # pageNumberItems cur (i + 1) endPage
      else [])"
  by pat_completeness auto
termination
  by (relation "measure (\<lambda>(cur, i, endPage). nat (endPage + 1 - i))") auto

text \<open>\<^verbatim>\<open>render\<close> for a page that has the pagination container: the children of the
  list it appends, or no child when the controls are suppressed.\<close>

definition render :: "pagination_manager \<Rightarrow> 'a list \<Rightarrow> pagination_item list" where
  "render pm items =
     (let pc = pageCount items
      in if pc \<le> 1 then []
         else (let startPage = max 1 (currentPage pm - 2);
                   endPage = min pc (startPage + 4)
               in [createPaginationItem Laquo (currentPage pm - 1) (currentPage pm = 1)
                     Previous False]
                  @ pageNumberItems (currentPage pm) startPage endPage
                  @ [createPaginationItem Raquo (currentPage pm + 1) (currentPage pm = pc)
                       Next False]))"

subsection \<open>OrderPage: the price total\<close>

text \<open>\<^verbatim>\<open>APP_CONFIG.shipping[option] || 0\<close>.\<close>

definition getShippingCost :: "string \<Rightarrow> js_value" where
  "getShippingCost option =
     (let v = (case getProp shipping option of
                 Absent \<Rightarrow> JUndefined
               | Own n \<Rightarrow> JNum n
               | Inherited w \<Rightarrow> w)
      in if truthy v then v else JNum 0)"

text \<open>\<^verbatim>\<open>this.selectedPuppy.price + shippingCost\<close> in the change handler of the delivery
  option. The sum of a number and a number, a boolean or \<^verbatim>\<open>null\<close> is a number, the sum
  with \<^verbatim>\<open>undefined\<close> is \<open>NaN\<close>, and the sum with a string, a function or an object is
  the concatenation of the string forms, kept here as the pair of the operands.\<close>

datatype order_total = Amount int | NotANumber | Concatenation int js_value

fun addToNumber :: "int \<Rightarrow> js_value \<Rightarrow> order_total" where
  "addToNumber n JUndefined = NotANumber"
| "addToNumber n JNull = Amount n"
| "addToNumber n (JBool b) = Amount (n + (if b then 1 else 0))"
| "addToNumber n (JNum c) = Amount (n + c)"
| "addToNumber n (JStr s) = Concatenation n (JStr s)"
| "addToNumber n (JObj k) = Concatenation n (JObj k)"
| "addToNumber n (JFun k) = Concatenation n (JFun k)"

definition orderTotal :: "puppy \<Rightarrow> string \<Rightarrow> order_total" where
  "orderTotal selectedPuppy option =
     (let shippingCost = getShippingCost option
      in addToNumber (price selectedPuppy) shippingCost)"

section \<open>Properties of the paginator\<close>

subsection \<open>Page count and slices\<close>

lemma ceiling_div10: "\<lceil>real n / 10\<rceil> = int ((n + 9) div 10)"
proof (rule ceiling_unique)
  have "(n + 9) div 10 * 10 < n + 10"
    by presburger
  then have "real ((n + 9) div 10 * 10) < real (n + 10)"
    by (simp only: of_nat_less_iff)
  then show "real_of_int (int ((n + 9) div 10)) - 1 < real n / 10"
    by simp
  have "n \<le> (n + 9) div 10 * 10"
    by presburger
  then have "real n \<le> real ((n + 9) div 10 * 10)"
    by (simp only: of_nat_le_iff)
  then show "real n / 10 \<le> real_of_int (int ((n + 9) div 10))"
    by simp
qed

lemma pageCount_nat: "pageCount items = int ((length items + 9) div 10)"
  by (simp add: pageCount_def itemsPerPage_def ceiling_div10)

lemma pageCount_div: "pageCount items = (int (length items) + 9) div 10"
  by (simp add: pageCount_nat zdiv_int)

lemma slice_nonneg:
  assumes "0 \<le> a" "a \<le> b"
  shows "slice xs a b = take (nat (b - a)) (drop (nat a) xs)"
proof (cases "a \<le> int (length xs)")
  case True
  with assms have "nat (min b (int (length xs)) - a) = min (nat (b - a)) (length xs - nat a)"
    by linarith
  with assms True show ?thesis
    by (simp add: slice_def Let_def min_def)
next
  case False
  with assms show ?thesis
    by (simp add: slice_def Let_def min_def)
qed

lemma getItemsForPage_pos:
  assumes "1 \<le> page"
  shows "getItemsForPage items page = take 10 (drop (nat (page - 1) * 10) items)"
proof -
  have "slice items ((page - 1) * 10) ((page - 1) * 10 + 10)
          = take (nat 10) (drop (nat ((page - 1) * 10)) items)"
    using assms by (subst slice_nonneg) simp_all
  moreover have "nat ((page - 1) * 10) = nat (page - 1) * 10"
    using assms by (simp add: nat_mult_distrib)
  ultimately show ?thesis
    by (simp add: getItemsForPage_def itemsPerPage_def Let_def)
qed

lemma concat_chunks:
  "concat (map (\<lambda>k. take n (drop (k * n) xs)) [0..<m]) = take (m * n) xs"
proof (induction m)
  case 0
  show ?case by simp
next
  case (Suc m)
  have "Suc m * n = m * n + n"
    by simp
  then have "take (Suc m * n) xs = take (m * n) xs @ take n (drop (m * n) xs)"
    by (simp only: take_add)
  with Suc show ?case by simp
qed

lemma upto_from_1: "[1..int m] = map (\<lambda>k. int k + 1) [0..<m]"
proof (induction m)
  case 0
  show ?case by simp
next
  case (Suc m)
  have "[1..int (Suc m)] = [1..int m] @ [int m + 1]"
    by (simp add: upto_rec2 add.commute)
  with Suc show ?case by simp
qed

lemma pages_as_chunks:
  "map (getItemsForPage items) [1..int m] = map (\<lambda>k. take 10 (drop (k * 10) items)) [0..<m]"
  by (simp add: upto_from_1 getItemsForPage_pos o_def)

lemma pages_concat: "concat (map (getItemsForPage items) [1..pageCount items]) = items"
proof -
  have "length items \<le> (length items + 9) div 10 * 10"
    by presburger
  then show ?thesis
    by (simp add: pageCount_nat pages_as_chunks concat_chunks)
qed

lemma last_page_size:
  assumes "items \<noteq> []"
  shows "1 \<le> length (getItemsForPage items (pageCount items))"
    and "length (getItemsForPage items (pageCount items)) \<le> 10"
proof -
  have pos: "0 < length items" using assms by simp
  then have pc: "1 \<le> pageCount items"
    unfolding pageCount_div by linarith
  have "nat (pageCount items - 1) = (length items + 9) div 10 - 1"
    unfolding pageCount_nat by linarith
  moreover have "((length items + 9) div 10 - 1) * 10 < length items"
    using pos by presburger
  ultimately have "nat (pageCount items - 1) * 10 < length items"
    by simp
  then show "1 \<le> length (getItemsForPage items (pageCount items))"
    by (simp add: getItemsForPage_pos [OF pc])
  show "length (getItemsForPage items (pageCount items)) \<le> 10"
    by (simp add: getItemsForPage_pos [OF pc])
qed

lemma take_drop_nth:
  "take n (drop a xs) = map ((!) xs) [a ..< min (a + n) (length xs)]"
  by (rule nth_equalityI) auto

lemma slice_neg:
  assumes "a < 0" "b < 0"
  shows "slice xs a b =
           take (nat (int (length xs) + b) - nat (int (length xs) + a))
             (drop (nat (int (length xs) + a)) xs)"
proof -
  have "nat (max u 0 - max v 0) = nat u - nat v" for u v :: int
    by arith
  moreover have "nat (max v 0) = nat v" for v :: int
    by arith
  ultimately show ?thesis
    using assms by (simp add: slice_def Let_def)
qed

lemma getItemsForPage_neg:
  assumes "page < 0"
  shows "getItemsForPage items page =
           take (nat (int (length items) + page * 10) - nat (int (length items) + (page - 1) * 10))
             (drop (nat (int (length items) + (page - 1) * 10)) items)"
proof -
  have "(page - 1) * 10 = page * 10 - 10"
    by (simp add: algebra_simps)
  with assms have "(page - 1) * 10 < 0" "(page - 1) * 10 + 10 < 0" "(page - 1) * 10 + 10 = page * 10"
    by simp_all
  then show ?thesis
    using slice_neg [of "(page - 1) * 10" "(page - 1) * 10 + 10" items]
    by (simp only: getItemsForPage_def itemsPerPage_def Let_def)
qed


subsection \<open>The pages partition the list\<close>

text \<open>
  Claim C5. For every item list, with the configured \<open>itemsPerPage = 10\<close>: the pages
  \<open>1\<close> to \<open>pageCount items = \<lceil>length items / itemsPerPage\<rceil>\<close>, concatenated in order, are
  the whole list, so their sizes add up to the number of items; when the list is not
  empty, the last page holds between \<open>1\<close> and \<open>itemsPerPage\<close> items; and twelve items
  make two pages, the first with items 1 to 10 and the second with items 11 and 12.
\<close>

theorem pages_partition_items:
  "concat (map (getItemsForPage items) [1..pageCount items]) = items \<and>
   sum_list (map (\<lambda>page. length (getItemsForPage items page)) [1..pageCount items])
     = length items \<and>
   (items \<noteq> [] \<longrightarrow>
      1 \<le> length (getItemsForPage items (pageCount items)) \<and>
      int (length (getItemsForPage items (pageCount items))) \<le> itemsPerPage) \<and>
   (length items = 12 \<longrightarrow>
      pageCount items = 2 \<and>
      getItemsForPage items 1 = take 10 items \<and>
      getItemsForPage items 2 = drop 10 items)"
proof (intro conjI impI)
  show "concat (map (getItemsForPage items) [1..pageCount items]) = items"
    by (rule pages_concat)
  have "sum_list (map (\<lambda>page. length (getItemsForPage items page)) [1..pageCount items])
          = length (concat (map (getItemsForPage items) [1..pageCount items]))"
    by (simp add: length_concat o_def)
  then show "sum_list (map (\<lambda>page. length (getItemsForPage items page)) [1..pageCount items])
               = length items"
    by (simp only: pages_concat)
next
  assume "items \<noteq> []"
  then show "1 \<le> length (getItemsForPage items (pageCount items))"
    and "int (length (getItemsForPage items (pageCount items))) \<le> itemsPerPage"
    using last_page_size [of items] by (simp_all add: itemsPerPage_def)
next
  assume len: "length items = 12"
  then show "pageCount items = 2"
    by (simp add: pageCount_div)
  show "getItemsForPage items 1 = take 10 items"
    by (simp add: getItemsForPage_pos)
  show "getItemsForPage items 2 = drop 10 items"
    using len by (simp add: getItemsForPage_pos)
qed


theorem pages_partition_items_witness:
  "puppies \<noteq> [] \<and> length puppies = 12 \<and> pageCount puppies = 2 \<and>
   concat (map (getItemsForPage puppies) [1..2]) = puppies \<and>
   map name (getItemsForPage puppies 1) =
     [''Rocco'', ''Kane'', ''Jack'', ''Blake'', ''Luna'', ''Miya'', ''Lexi'', ''Lucy'',
      ''Brutus'', ''Xena''] \<and>
   map name (getItemsForPage puppies 2) = [''Gaston'', ''Rocky''] \<and>
   length (getItemsForPage puppies 2) = 2"
proof -
  have ne: "puppies \<noteq> []" and len: "length puppies = 12"
    by (simp_all add: puppies_def)
  have pc: "pageCount puppies = 2"
    and p1: "getItemsForPage puppies 1 = take 10 puppies"
    and p2: "getItemsForPage puppies 2 = drop 10 puppies"
    and all: "concat (map (getItemsForPage puppies) [1..pageCount puppies]) = puppies"
    using pages_partition_items [of puppies] len by blast+
  have "map name (take 10 puppies) =
     [''Rocco'', ''Kane'', ''Jack'', ''Blake'', ''Luna'', ''Miya'', ''Lexi'', ''Lucy'',
      ''Brutus'', ''Xena'']"
    and "map name (drop 10 puppies) = [''Gaston'', ''Rocky'']"
    and "length (drop 10 puppies) = 2"
    by (simp_all add: puppies_def)
  with ne len pc all show ?thesis
    by (simp only: p1 p2) simp
qed


subsection \<open>The slice of a page\<close>

text \<open>
  Claim C6, as the code has it. For a page number \<open>page \<ge> 1\<close>, \<open>getItemsForPage\<close> returns
  the items with indices in \<open>[(page - 1) * itemsPerPage, page * itemsPerPage)\<close>, as far as
  the list has them. Page \<open>0\<close> and every page after the last one give the empty list.
  A negative page number is not out of range for \<^verbatim>\<open>Array.prototype.slice\<close>: both bounds
  are negative and count from the end of the list, so the result is the items with
  indices in \<open>[length items + (page - 1) * itemsPerPage, length items + page * itemsPerPage)\<close>,
  each bound raised to \<open>0\<close> when negative. No page number raises an error:
  \<open>getItemsForPage\<close> is a total function.
\<close>

theorem getItemsForPage_slice_by_page:
  "(1 \<le> page \<longrightarrow>
      getItemsForPage items page =
        map ((!) items) [nat ((page - 1) * itemsPerPage) ..<
                         min (nat (page * itemsPerPage)) (length items)]) \<and>
   (page = 0 \<or> pageCount items < page \<longrightarrow> getItemsForPage items page = []) \<and>
   (page < 0 \<longrightarrow>
      getItemsForPage items page =
        map ((!) items) [nat (int (length items) + (page - 1) * itemsPerPage) ..<
                         nat (int (length items) + page * itemsPerPage)])"
proof (intro conjI impI)
  assume p: "1 \<le> page"
  have "nat ((page - 1) * 10) = nat (page - 1) * 10"
    using p by (simp add: nat_mult_distrib)
  moreover have "nat (page * 10) = nat (page - 1) * 10 + 10"
    using p by linarith
  ultimately have "nat (page - 1) * 10 + 10 = nat (page * 10)" "nat ((page - 1) * 10) = nat (page - 1) * 10"
    by simp_all
  then show "getItemsForPage items page =
        map ((!) items) [nat ((page - 1) * itemsPerPage) ..<
                         min (nat (page * itemsPerPage)) (length items)]"
    by (simp add: getItemsForPage_pos [OF p] take_drop_nth itemsPerPage_def)
next
  assume "page = 0 \<or> pageCount items < page"
  then show "getItemsForPage items page = []"
  proof
    assume "page = 0"
    then show ?thesis
      by (simp add: getItemsForPage_def slice_def itemsPerPage_def Let_def)
  next
    assume gt: "pageCount items < page"
    then have p: "1 \<le> page" and "length items \<le> nat (page - 1) * 10"
      unfolding pageCount_div by linarith+
    then show ?thesis
      by (simp add: getItemsForPage_pos [OF p])
  qed
next
  assume n: "page < 0"
  have le: "nat (int (length items) + page * 10) \<le> length items"
    using n by linarith
  have "x \<le> y \<Longrightarrow> nat x + (nat y - nat x) = nat y" for x y :: int
    by arith
  then have "nat (int (length items) + (page - 1) * 10) +
          (nat (int (length items) + page * 10) - nat (int (length items) + (page - 1) * 10))
        = nat (int (length items) + page * 10)"
    by simp
  with le show "getItemsForPage items page =
        map ((!) items) [nat (int (length items) + (page - 1) * itemsPerPage) ..<
                         nat (int (length items) + page * itemsPerPage)]"
    by (simp add: getItemsForPage_neg [OF n] take_drop_nth itemsPerPage_def min_absorb1)
qed


theorem getItemsForPage_slice_by_page_witness:
  "map name (getItemsForPage puppies 2) = [''Gaston'', ''Rocky''] \<and>
   getItemsForPage puppies 0 = [] \<and>
   pageCount puppies < 3 \<and> getItemsForPage puppies 3 = [] \<and>
   map name (getItemsForPage puppies (- 1)) = [''Rocco'', ''Kane'']"
proof -
  have pc: "pageCount puppies = 2"
    by (simp add: pageCount_div puppies_def)
  have len: "length puppies = 12"
    by (simp add: puppies_def)
  have ivl: "[10 ..< 12] = [10, 11]" "[0 ..< (2::nat)] = [0, 1]"
    by (simp_all add: upt_rec)
  have g2: "getItemsForPage puppies 2 = map ((!) puppies) [10, 11]"
    using getItemsForPage_slice_by_page [of 2 puppies] by (simp add: itemsPerPage_def len ivl)
  have g0: "getItemsForPage puppies 0 = []"
    using getItemsForPage_slice_by_page [of 0 puppies] by simp
  have "pageCount puppies < 3 \<longrightarrow> getItemsForPage puppies 3 = []"
    using getItemsForPage_slice_by_page [of 3 puppies] by blast
  then have g3: "getItemsForPage puppies 3 = []"
    by (simp add: pc)
  have gm: "getItemsForPage puppies (- 1) = map ((!) puppies) [0, 1]"
    using getItemsForPage_slice_by_page [of "- 1" puppies] by (simp add: itemsPerPage_def len ivl)
  have n2: "map name (map ((!) puppies) [10, 11]) = [''Gaston'', ''Rocky'']"
    and nm: "map name (map ((!) puppies) [0, 1]) = [''Rocco'', ''Kane'']"
    by (simp_all add: puppies_def)
  show ?thesis
    by (simp only: g2 g0 g3 gm n2 nm pc) simp
qed


text \<open>
  The claim as written says that every page number below \<open>1\<close> gives an empty list. Page
  \<open>-1\<close> of the catalog of twelve puppies holds the first two of them.
\<close>

theorem getItemsForPage_negative_page_nonempty:
  "(- 1 :: int) < 1 \<and> getItemsForPage puppies (- 1) \<noteq> [] \<and>
   map name (getItemsForPage puppies (- 1)) = [''Rocco'', ''Kane'']"
  by (simp add: getItemsForPage_def slice_def itemsPerPage_def puppies_def)

subsection \<open>The window of page numbers\<close>

lemma pageNumberItems_upto:
  "pageNumberItems cur i endPage =
     map (\<lambda>j. createPaginationItem (PageNumber j) j False (Page j) (j = cur)) [i..endPage]"
proof (induction cur i endPage rule: pageNumberItems.induct)
  case (1 cur i endPage)
  show ?case
  proof (cases "i \<le> endPage")
    case True
    then show ?thesis
      using 1 by (subst pageNumberItems.simps, subst upto.simps) simp
  next
    case False
    then show ?thesis by (subst pageNumberItems.simps) simp
  qed
qed

text \<open>
  Claim C9. Whenever \<open>pageCount items > 1\<close>, \<open>render\<close> draws the Previous control, one
  control for each page number from \<open>startPage = max 1 (currentPage - 2)\<close> to
  \<open>endPage = min pageCount (startPage + 4)\<close> in increasing order, and the Next control.
  The window has at most 5 page numbers, all of them in \<open>[1, pageCount]\<close>. It is
  centred on the current page wherever the clamping leaves room: for
  \<open>3 \<le> currentPage\<close> and \<open>currentPage + 2 \<le> pageCount\<close> it is
  \<open>currentPage - 2, \<dots>, currentPage + 2\<close>; and a current page in \<open>[1, pageCount]\<close> is always
  one of the numbers shown.
\<close>

theorem render_page_window:
  assumes "1 < pageCount items"
  shows "(let cur = currentPage pm;
              pc = pageCount items;
              startPage = max 1 (cur - 2);
              endPage = min pc (startPage + 4)
          in render pm items =
               createPaginationItem Laquo (cur - 1) (cur = 1) Previous False
               # map (\<lambda>i. createPaginationItem (PageNumber i) i False (Page i) (i = cur))
                   [startPage..endPage]
               @ [createPaginationItem Raquo (cur + 1) (cur = pc) Next False] \<and>
             length [startPage..endPage] \<le> 5 \<and>
             (\<forall>i \<in> set [startPage..endPage]. 1 \<le> i \<and> i \<le> pc) \<and>
             (3 \<le> cur \<and> cur + 2 \<le> pc \<longrightarrow>
                [startPage..endPage] = [cur - 2, cur - 1, cur, cur + 1, cur + 2]) \<and>
             (1 \<le> cur \<and> cur \<le> pc \<longrightarrow> cur \<in> set [startPage..endPage]))"
proof -
  have five: "[c - 2..c + 2] = [c - 2, c - 1, c, c + 1, c + 2]" for c :: int
    by (simp add: upto.simps)
  have centred: "[max 1 (c - 2)..min pc (max 1 (c - 2) + 4)] = [c - 2, c - 1, c, c + 1, c + 2]"
    if "3 \<le> c" "c + 2 \<le> pc" for c pc :: int
  proof -
    from that have "max 1 (c - 2) = c - 2" "min pc (c - 2 + 4) = c + 2"
      by linarith+
    then show ?thesis
      by (simp only: five)
  qed
  define cur where "cur = currentPage pm"
  define pc where "pc = pageCount items"
  define s where "s = max 1 (cur - 2)"
  define e where "e = min pc (s + 4)"
  have "\<not> pc \<le> 1"
    using assms by (simp add: pc_def)
  then have r: "render pm items =
               createPaginationItem Laquo (cur - 1) (cur = 1) Previous False
               # map (\<lambda>i. createPaginationItem (PageNumber i) i False (Page i) (i = cur)) [s..e]
               @ [createPaginationItem Raquo (cur + 1) (cur = pc) Next False]"
    unfolding render_def Let_def pageNumberItems_upto cur_def [symmetric] pc_def [symmetric]
      s_def [symmetric] e_def [symmetric]
    by simp
  have "e - s + 1 \<le> 5"
    unfolding e_def by linarith
  then have len: "length [s..e] \<le> 5"
    by simp
  have rng: "\<forall>i \<in> set [s..e]. 1 \<le> i \<and> i \<le> pc"
    unfolding s_def e_def by auto
  have cen: "3 \<le> cur \<and> cur + 2 \<le> pc \<longrightarrow> [s..e] = [cur - 2, cur - 1, cur, cur + 1, cur + 2]"
    unfolding s_def e_def using centred by blast
  have mem: "1 \<le> cur \<and> cur \<le> pc \<longrightarrow> cur \<in> set [s..e]"
    unfolding s_def e_def by auto
  from r len rng cen mem show ?thesis
    unfolding Let_def cur_def [symmetric] pc_def [symmetric] s_def [symmetric] e_def [symmetric]
    by blast
qed

theorem render_page_window_witness:
  "1 < pageCount (replicate 95 (0::nat)) \<and>
   map item_page (render \<lparr>currentPage = 5\<rparr> (replicate 95 (0::nat))) = [4, 3, 4, 5, 6, 7, 6] \<and>
   map item_active (render \<lparr>currentPage = 5\<rparr> (replicate 95 (0::nat)))
     = [False, False, False, True, False, False, False] \<and>
   map item_page (render \<lparr>currentPage = 1\<rparr> (replicate 95 (0::nat))) = [0, 1, 2, 3, 4, 5, 2] \<and>
   map item_page (render \<lparr>currentPage = 10\<rparr> (replicate 95 (0::nat))) = [9, 8, 9, 10, 11]"
proof -
  have pc: "pageCount (replicate 95 (0::nat)) = 10"
    by (simp add: pageCount_nat)
  have u: "[3..7] = [3, 4, 5, 6, 7::int]" "[1..5] = [1, 2, 3, 4, 5::int]" "[8..10] = [8, 9, 10::int]"
    by (simp_all add: upto.simps)
  have "map item_page (render \<lparr>currentPage = 5\<rparr> (replicate 95 (0::nat))) = [4, 3, 4, 5, 6, 7, 6]"
    "map item_active (render \<lparr>currentPage = 5\<rparr> (replicate 95 (0::nat)))
     = [False, False, False, True, False, False, False]"
    using render_page_window [of "replicate 95 (0::nat)" "\<lparr>currentPage = 5\<rparr>"]
    by (simp_all add: pc Let_def createPaginationItem_def u)
  moreover have "map item_page (render \<lparr>currentPage = 1\<rparr> (replicate 95 (0::nat))) = [0, 1, 2, 3, 4, 5, 2]"
    using render_page_window [of "replicate 95 (0::nat)" "\<lparr>currentPage = 1\<rparr>"]
    by (simp add: pc Let_def createPaginationItem_def u)
  moreover have "map item_page (render \<lparr>currentPage = 10\<rparr> (replicate 95 (0::nat))) = [9, 8, 9, 10, 11]"
    using render_page_window [of "replicate 95 (0::nat)" "\<lparr>currentPage = 10\<rparr>"]
    by (simp add: pc Let_def createPaginationItem_def u)
  ultimately show ?thesis
    by (simp add: pc)
qed

section \<open>Properties of the filter engine\<close>

lemma count_list_filter:
  "count_list (filter P xs) x = (if P x then count_list xs x else 0)"
  by (induction xs) auto

lemma applyFilters_filter:
  "applyFilters doc ps =
     filter (\<lambda>p. matchesBreedFilter p (getFilterValue (breed_filter doc)) \<and>
                     matchesAgeFilter p (getFilterValue (age_filter doc)) \<and>
                     matchesGenderFilter p (getFilterValue (gender_filter doc))) ps"
  by (simp add: applyFilters_def getActiveFilters_def)

text \<open>
  Claim C2. For every catalog list and every criteria (the values of the three select
  elements, \<open>''all''\<close> standing for an element that is missing), \<open>applyFilters\<close> returns
  exactly the records that satisfy the breed, the age and the gender predicate together,
  in their original order: it is the \<open>filter\<close> of the list by the conjunction, so its
  elements are the matching records of the list, each as often as the list has it, and
  it is a subsequence of the list. The breed and the gender predicate are \<open>''all''\<close> or
  equality of strings, which distinguishes upper and lower case.
\<close>

theorem applyFilters_exact_subsequence:
  "(let b = getFilterValue (breed_filter doc);
        a = getFilterValue (age_filter doc);
        g = getFilterValue (gender_filter doc);
        matches = (\<lambda>p. (b = ''all'' \<or> breed p = b) \<and> matchesAgeFilter p a \<and>
                            (g = ''all'' \<or> gender p = g))
    in applyFilters doc ps = filter matches ps \<and>
       set (applyFilters doc ps) = {p \<in> set ps. matches p} \<and>
       (\<forall>p. count_list (applyFilters doc ps) p = (if matches p then count_list ps p else 0))) \<and>
   subseq (applyFilters doc ps) ps"
proof -
  have eq: "applyFilters doc ps =
      filter (\<lambda>p. (getFilterValue (breed_filter doc) = ''all'' \<or>
                       breed p = getFilterValue (breed_filter doc)) \<and>
                      matchesAgeFilter p (getFilterValue (age_filter doc)) \<and>
                      (getFilterValue (gender_filter doc) = ''all'' \<or>
                       gender p = getFilterValue (gender_filter doc))) ps"
    by (simp add: applyFilters_filter matchesBreedFilter_def matchesGenderFilter_def)
  show ?thesis
    unfolding Let_def eq by (simp add: count_list_filter)
qed

theorem applyFilters_exact_subsequence_witness:
  "map name (applyFilters \<lparr>breed_filter = Some ''Cane Corso'', age_filter = Some ''all'',
                              gender_filter = Some ''Female''\<rparr> puppies)
     = [''Luna'', ''Miya'', ''Lexi'', ''Lucy''] \<and>
   applyFilters \<lparr>breed_filter = Some ''cane corso'', age_filter = Some ''all'',
                  gender_filter = Some ''Female''\<rparr> puppies = [] \<and>
   subseq (applyFilters \<lparr>breed_filter = Some ''Cane Corso'', age_filter = Some ''all'',
                          gender_filter = Some ''Female''\<rparr> puppies) puppies"
proof -
  have age_all: "matchesAgeFilter p ''all''" for p
    by (simp add: matchesAgeFilter_def)
  have "applyFilters \<lparr>breed_filter = Some ''Cane Corso'', age_filter = Some ''all'',
                       gender_filter = Some ''Female''\<rparr> puppies
          = filter (\<lambda>p. breed p = ''Cane Corso'' \<and> gender p = ''Female'') puppies"
    using applyFilters_exact_subsequence
            [of "\<lparr>breed_filter = Some ''Cane Corso'', age_filter = Some ''all'',
                  gender_filter = Some ''Female''\<rparr>" puppies]
    by (simp add: age_all getFilterValue_def Let_def)
  moreover have "applyFilters \<lparr>breed_filter = Some ''cane corso'', age_filter = Some ''all'',
                       gender_filter = Some ''Female''\<rparr> puppies
          = filter (\<lambda>p. breed p = ''cane corso'' \<and> gender p = ''Female'') puppies"
    using applyFilters_exact_subsequence
            [of "\<lparr>breed_filter = Some ''cane corso'', age_filter = Some ''all'',
                  gender_filter = Some ''Female''\<rparr>" puppies]
    by (simp add: age_all getFilterValue_def Let_def)
  moreover have "map name (filter (\<lambda>p. breed p = ''Cane Corso'' \<and> gender p = ''Female'') puppies)
                   = [''Luna'', ''Miya'', ''Lexi'', ''Lucy'']"
    by (simp add: puppies_def)
  moreover have "filter (\<lambda>p. breed p = ''cane corso'' \<and> gender p = ''Female'') puppies = []"
    by (simp add: puppies_def)
  moreover have "subseq (applyFilters \<lparr>breed_filter = Some ''Cane Corso'', age_filter = Some ''all'',
                          gender_filter = Some ''Female''\<rparr> puppies) puppies"
    using applyFilters_exact_subsequence by blast
  ultimately show ?thesis
    by (simp only:)
qed

text \<open>
  Claim C8. Filtering the output of the filter engine again with the same criteria
  returns it unchanged.
\<close>

theorem applyFilters_idempotent:
  "applyFilters doc (applyFilters doc ps) = applyFilters doc ps"
  by (simp add: applyFilters_filter)

theorem applyFilters_idempotent_witness:
  "applyFilters \<lparr>breed_filter = Some ''Staffy'', age_filter = Some ''3-6 months'',
                  gender_filter = None\<rparr>
     (applyFilters \<lparr>breed_filter = Some ''Staffy'', age_filter = Some ''3-6 months'',
                     gender_filter = None\<rparr> puppies)
   = applyFilters \<lparr>breed_filter = Some ''Staffy'', age_filter = Some ''3-6 months'',
                    gender_filter = None\<rparr> puppies"
  by (rule applyFilters_idempotent)

subsection \<open>Age buckets\<close>

lemma ageRange_8_12:
  "getProp ageRanges ''8-12 weeks'' = Own \<lparr>range_min = 8, range_max = 12, range_unit = ''weeks''\<rparr>"
  by (simp add: getProp_def ageRanges_def)

lemma ageRange_3_6:
  "getProp ageRanges ''3-6 months'' = Own \<lparr>range_min = 12, range_max = 24, range_unit = ''weeks''\<rparr>"
  by (simp add: getProp_def ageRanges_def)

lemma parseAge_12_weeks: "parseAgeToWeeks (JStr ''12 weeks'') = Finite 12"
  by code_simp

lemma parseAge_3_months: "parseAgeToWeeks (JStr ''3 months'') = Finite 12"
  by code_simp

lemma numGe_numLe_positive:
  assumes "0 < a"
  shows "(numGe w a \<and> numLe w b) = (\<exists>k. w = Finite k \<and> a \<le> k \<and> k \<le> b)"
  using assms by (cases w) auto

text \<open>
  Claim C10. The bucket \<open>''8-12 weeks''\<close> is the closed interval \<open>[8, 12]\<close> of weeks and
  the bucket \<open>''3-6 months''\<close> is \<open>[12, 24]\<close>. A record matches both buckets exactly when
  its age parses to 12 weeks; in particular the ages \<open>''12 weeks''\<close> and \<open>''3 months''\<close>
  match both.
\<close>

theorem age_buckets_overlap_at_12:
  "(let w = parseAgeToWeeks (JStr (age p))
    in getProp ageRanges ''8-12 weeks''
         = Own \<lparr>range_min = 8, range_max = 12, range_unit = ''weeks''\<rparr> \<and>
       getProp ageRanges ''3-6 months''
         = Own \<lparr>range_min = 12, range_max = 24, range_unit = ''weeks''\<rparr> \<and>
       matchesAgeFilter p ''8-12 weeks'' = (\<exists>k. w = Finite k \<and> 8 \<le> k \<and> k \<le> 12) \<and>
       matchesAgeFilter p ''3-6 months'' = (\<exists>k. w = Finite k \<and> 12 \<le> k \<and> k \<le> 24) \<and>
       ((matchesAgeFilter p ''8-12 weeks'' \<and> matchesAgeFilter p ''3-6 months'')
          = (w = Finite 12)) \<and>
       (age p = ''12 weeks'' \<or> age p = ''3 months'' \<longrightarrow>
          matchesAgeFilter p ''8-12 weeks'' \<and> matchesAgeFilter p ''3-6 months''))"
proof -
  have a: "matchesAgeFilter p ''8-12 weeks''
             = (\<exists>k. parseAgeToWeeks (JStr (age p)) = Finite k \<and> 8 \<le> k \<and> k \<le> 12)"
    using numGe_numLe_positive [of 8 "parseAgeToWeeks (JStr (age p))" 12]
    by (simp add: matchesAgeFilter_def ageRange_8_12 Let_def)
  have b: "matchesAgeFilter p ''3-6 months''
             = (\<exists>k. parseAgeToWeeks (JStr (age p)) = Finite k \<and> 12 \<le> k \<and> k \<le> 24)"
    using numGe_numLe_positive [of 12 "parseAgeToWeeks (JStr (age p))" 24]
    by (simp add: matchesAgeFilter_def ageRange_3_6 Let_def)
  have c: "age p = ''12 weeks'' \<or> age p = ''3 months''
             \<Longrightarrow> parseAgeToWeeks (JStr (age p)) = Finite 12"
    using parseAge_12_weeks parseAge_3_months by auto
  show ?thesis
    unfolding Let_def a b ageRange_8_12 ageRange_3_6 using c by auto
qed

theorem age_buckets_overlap_at_12_witness:
  "age (puppies ! 11) = ''12 weeks'' \<and>
   matchesAgeFilter (puppies ! 11) ''8-12 weeks'' \<and>
   matchesAgeFilter (puppies ! 11) ''3-6 months''"
proof -
  have "age (puppies ! 11) = ''12 weeks''"
    by (simp add: puppies_def)
  with age_buckets_overlap_at_12 [of "puppies ! 11"] show ?thesis
    by (simp only: Let_def) blast
qed

subsection \<open>Age buckets that are not configured\<close>

text \<open>
  A bucket name that is neither a key of \<open>ageRanges\<close> nor the name of a property of
  \<^verbatim>\<open>Object.prototype\<close> reads as \<^verbatim>\<open>undefined\<close>, and the filter then matches every record,
  as the wildcard does.
\<close>

lemma matchesAgeFilter_absent:
  assumes "getProp ageRanges ageFilter = Absent"
  shows "matchesAgeFilter p ageFilter"
  using assms by (simp add: matchesAgeFilter_def Let_def)

lemma applyFilters_absent_bucket:
  assumes "getProp ageRanges a = Absent"
  shows "applyFilters \<lparr>breed_filter = b, age_filter = Some a, gender_filter = g\<rparr> ps
           = applyFilters \<lparr>breed_filter = b, age_filter = Some ''all'', gender_filter = g\<rparr> ps"
  using assms
  by (simp add: applyFilters_filter getFilterValue_def matchesAgeFilter_absent
      matchesAgeFilter_def)

text \<open>
  Claim C7 says that every bucket name that is not a key of the age-range table filters
  like the wildcard. The name \<open>''toString''\<close> is not a key of the table, yet
  \<^verbatim>\<open>APP_CONFIG.ageRanges['toString']\<close> is the inherited function, which is truthy: the
  guard \<^verbatim>\<open>if (!ageRange) return true\<close> is passed, the comparison with the missing
  \<^verbatim>\<open>min\<close> is false, and no record of the catalog matches.
\<close>

theorem applyFilters_inherited_age_bucket:
  "map_of ageRanges ''toString'' = None \<and>
   applyFilters \<lparr>breed_filter = Some ''all'', age_filter = Some ''toString'',
                  gender_filter = Some ''all''\<rparr> puppies = [] \<and>
   applyFilters \<lparr>breed_filter = Some ''all'', age_filter = Some ''all'',
                  gender_filter = Some ''all''\<rparr> puppies = puppies \<and>
   puppies \<noteq> []"
proof -
  have "getProp ageRanges ''toString'' = Inherited (JFun ''toString'')"
    by (simp add: getProp_def ageRanges_def Object_prototype_def)
  then have no: "\<not> matchesAgeFilter p ''toString''" for p
    by (simp add: matchesAgeFilter_def Let_def)
  have yes: "matchesAgeFilter p ''all''" for p
    by (simp add: matchesAgeFilter_def)
  have "puppies \<noteq> []"
    by (simp add: puppies_def)
  then show ?thesis
    by (simp add: applyFilters_filter getFilterValue_def no yes matchesBreedFilter_def
        matchesGenderFilter_def ageRanges_def)
qed

section \<open>Properties of the price total\<close>

text \<open>
  For the options the order form offers (the empty placeholder included), and for every
  other string that is not the name of a property of \<^verbatim>\<open>Object.prototype\<close>, the total is
  the price plus the configured surcharge, or the price alone.
\<close>

lemma getShippingCost_configured:
  assumes "map_of Object_prototype option = None"
  shows "getShippingCost option
           = JNum (case map_of shipping option of None \<Rightarrow> 0 | Some n \<Rightarrow> n)"
  using assms by (simp add: getShippingCost_def getProp_def Let_def split: option.splits)

lemma orderTotal_configured:
  assumes "map_of Object_prototype option = None"
  shows "orderTotal p option
           = Amount (price p + (case map_of shipping option of None \<Rightarrow> 0 | Some n \<Rightarrow> n))"
  by (simp add: orderTotal_def getShippingCost_configured [OF assms])

lemma orderTotal_offered_options:
  "orderTotal p ''pickup'' = Amount (price p)"
  "orderTotal p ''standard'' = Amount (price p + 150)"
  "orderTotal p ''handDelivery'' = Amount (price p + 350)"
  "orderTotal p '''' = Amount (price p)"
  by (simp_all add: orderTotal_configured Object_prototype_def shipping_def)

text \<open>
  Claim C1 says that every unrecognised option has surcharge 0, so that the total is the
  price. For the option \<open>''toString''\<close>, which is not a key of the shipping table,
  \<^verbatim>\<open>APP_CONFIG.shipping[option] || 0\<close> is the inherited function: \<open>getShippingCost\<close>
  does not return a number, and the total is a string concatenation, not the price.
\<close>

theorem orderTotal_inherited_option:
  "map_of shipping ''toString'' = None \<and>
   getShippingCost ''toString'' = JFun ''toString'' \<and>
   orderTotal (puppies ! 0) ''toString'' = Concatenation 1500 (JFun ''toString'') \<and>
   orderTotal (puppies ! 0) ''toString'' \<noteq> Amount (price (puppies ! 0))"
proof -
  have g: "getShippingCost ''toString'' = JFun ''toString''"
    by (simp add: getShippingCost_def getProp_def shipping_def Object_prototype_def)
  have "price (puppies ! 0) = 1500"
    by (simp add: puppies_def)
  then show ?thesis
    by (simp add: orderTotal_def g shipping_def)
qed

section \<open>Properties of the age parser\<close>

subsection \<open>Characters\<close>

lemma of_char_less_256: "(of_char c :: nat) < 256"
  by (cases c) (simp add: of_char_Char)

lemma lowerChar_code:
  "(of_char (lowerChar c) :: nat) =
     (if (65 \<le> (of_char c :: nat) \<and> (of_char c :: nat) \<le> 90) \<or>
         (192 \<le> (of_char c :: nat) \<and> (of_char c :: nat) \<le> 222 \<and> (of_char c :: nat) \<noteq> 215)
      then of_char c + 32 else of_char c)"
  by (simp add: lowerChar_def Let_def)

lemma lowerChar_below_65:
  assumes "(of_char d :: nat) < 65"
  shows "(lowerChar c = d) = (c = d)"
proof
  assume "lowerChar c = d"
  then have "(of_char (lowerChar c) :: nat) < 65"
    using assms by simp
  then have "(of_char (lowerChar c) :: nat) = of_char c"
    unfolding lowerChar_code by (simp split: if_splits)
  then have "lowerChar c = c"
    by (simp only: of_char_eq_iff)
  with \<open>lowerChar c = d\<close> show "c = d"
    by simp
next
  assume "c = d"
  with assms show "lowerChar c = d"
    by (simp add: lowerChar_def Let_def)
qed

lemma lowerChar_space [simp]: "(lowerChar c = CHR '' '') = (c = CHR '' '')"
  by (rule lowerChar_below_65) simp

lemma lowerChar_minus [simp]: "(lowerChar c = CHR ''-'') = (c = CHR ''-'')"
  by (rule lowerChar_below_65) simp

lemma lowerChar_plus [simp]: "(lowerChar c = CHR ''+'') = (c = CHR ''+'')"
  by (rule lowerChar_below_65) simp

lemma lowerChar_not_X [simp]: "lowerChar c \<noteq> CHR ''X''"
proof
  assume "lowerChar c = CHR ''X''"
  then have "(of_char (lowerChar c) :: nat) = 88"
    by simp
  then show False
    unfolding lowerChar_code by (simp split: if_splits)
qed

lemma lowerChar_not_X_sym [simp]: "CHR ''X'' \<noteq> lowerChar c"
  using lowerChar_not_X [of c] by (rule not_sym)

lemma lowerChar_of_space [simp]: "lowerChar CHR '' '' = CHR '' ''"
  by (simp add: lowerChar_def)

lemma StrWhiteSpaceChar_lowerChar [simp]:
  "StrWhiteSpaceChar (lowerChar c) = StrWhiteSpaceChar c"
  unfolding StrWhiteSpaceChar_def Let_def lowerChar_code by auto

lemma isRadixDigit_10_code:
  "isRadixDigit 10 c = (48 \<le> (of_char c :: nat) \<and> (of_char c :: nat) \<le> 57)"
  by (auto simp: isRadixDigit_def digitOf_def Let_def)

lemma isRadixDigit_10_lowerChar [simp]:
  "isRadixDigit 10 (lowerChar c) = isRadixDigit 10 c"
  unfolding isRadixDigit_10_code lowerChar_code by auto

lemma lowerChar_digit: "isRadixDigit 10 c \<Longrightarrow> lowerChar c = c"
  by (simp add: isRadixDigit_10_code lowerChar_def Let_def)

lemma digit_not_ws: "isRadixDigit 10 c \<Longrightarrow> \<not> StrWhiteSpaceChar c"
  by (auto simp: isRadixDigit_10_code StrWhiteSpaceChar_def Let_def)

lemma digit_not_sign: "isRadixDigit 10 c \<Longrightarrow> c \<noteq> CHR ''+'' \<and> c \<noteq> CHR ''-'' \<and> c \<noteq> CHR ''x''"
  by (auto simp: isRadixDigit_10_code)

lemma space_is_ws [simp]: "StrWhiteSpaceChar CHR '' ''"
  by (simp add: StrWhiteSpaceChar_def)

subsection \<open>Decimal numerals\<close>

lemma digitOf_digitChar: "d < 10 \<Longrightarrow> digitOf (digitChar d) = Some d"
  by (simp add: digitOf_def digitChar_def Let_def)

lemma isRadixDigit_digitChar: "d < 10 \<Longrightarrow> isRadixDigit 10 (digitChar d)"
  by (simp add: isRadixDigit_def digitOf_digitChar)

lemma decimal_digits: "\<forall>c \<in> set (decimal n). isRadixDigit 10 c"
proof (induction n rule: decimal.induct)
  case (1 n)
  show ?case
  proof (cases "n < 10")
    case True
    then show ?thesis
      by (subst decimal.simps) (simp add: isRadixDigit_digitChar)
  next
    case False
    with 1 show ?thesis
      by (subst decimal.simps) (simp add: isRadixDigit_digitChar)
  qed
qed

lemma decimal_not_Nil [simp]: "decimal n \<noteq> []"
  by (subst decimal.simps) simp

lemma mathInt_snoc:
  "mathInt R (Z @ [c]) = (case digitOf c of None \<Rightarrow> mathInt R Z | Some d \<Rightarrow> mathInt R Z * R + d)"
  by (simp add: mathInt_def split: option.split)

lemma mathInt_decimal: "mathInt 10 (decimal n) = n"
proof (induction n rule: decimal.induct)
  case (1 n)
  show ?case
  proof (cases "n < 10")
    case True
    then show ?thesis
      by (subst decimal.simps) (simp add: mathInt_def digitOf_digitChar)
  next
    case False
    with 1 have "mathInt 10 (decimal (n div 10)) = n div 10"
      by simp
    with False show ?thesis
      by (subst decimal.simps) (simp add: mathInt_snoc digitOf_digitChar)
  qed
qed

subsection \<open>trim, toLowerCase and split\<close>

lemma trim_no_outer_ws:
  assumes "s \<noteq> []" "\<not> StrWhiteSpaceChar (hd s)" "\<not> StrWhiteSpaceChar (last s)"
  shows "trim s = s"
proof -
  have "dropWhile StrWhiteSpaceChar s = s"
    using assms by (cases s) simp_all
  moreover have "dropWhile StrWhiteSpaceChar (rev s) = rev s"
    using assms by (cases "rev s") (simp_all add: hd_rev)
  ultimately show ?thesis
    by (simp add: trim_def)
qed

lemma isToken_ends:
  assumes "isToken t"
  shows "t \<noteq> []" "\<not> StrWhiteSpaceChar (hd t)" "\<not> StrWhiteSpaceChar (last t)"
    "CHR '' '' \<notin> set t"
  using assms by (auto simp: isToken_def list_all_iff)

lemma trim_padded_token:
  assumes "list_all StrWhiteSpaceChar w1" "list_all StrWhiteSpaceChar w2" "t = [] \<or> isToken t"
  shows "trim (w1 @ t @ w2) = t"
proof -
  have w1: "\<forall>c \<in> set w1. StrWhiteSpaceChar c" and w2: "\<forall>c \<in> set (rev w2). StrWhiteSpaceChar c"
    using assms by (simp_all add: list_all_iff)
  have a: "dropWhile StrWhiteSpaceChar (w1 @ t @ w2) = dropWhile StrWhiteSpaceChar (t @ w2)"
    using w1 by (simp add: dropWhile_append2)
  show ?thesis
  proof (cases "t = []")
    case True
    have "\<forall>c \<in> set (w1 @ t @ w2). StrWhiteSpaceChar c"
      using w1 w2 True by auto
    then have e: "dropWhile StrWhiteSpaceChar (w1 @ t @ w2) = []"
      by (simp only: dropWhile_eq_Nil_conv)
    show ?thesis
      unfolding trim_def e using True by simp
  next
    case False
    with assms have tok: "isToken t"
      by simp
    have "dropWhile StrWhiteSpaceChar (t @ w2) = t @ w2"
      using isToken_ends [OF tok] by (cases t) simp_all
    moreover have "dropWhile StrWhiteSpaceChar (rev w2 @ rev t) = dropWhile StrWhiteSpaceChar (rev t)"
      using w2 by (simp only: dropWhile_append2)
    moreover have "dropWhile StrWhiteSpaceChar (rev t) = rev t"
      using isToken_ends [OF tok] by (cases "rev t") (simp_all add: hd_rev)
    ultimately show ?thesis
      using a by (simp add: trim_def)
  qed
qed

lemma toLowerCase_append [simp]: "toLowerCase (a @ b) = toLowerCase a @ toLowerCase b"
  by (simp add: toLowerCase_def)

lemma toLowerCase_Cons [simp]: "toLowerCase (c # s) = lowerChar c # toLowerCase s"
  by (simp add: toLowerCase_def)

lemma toLowerCase_Nil [simp]: "toLowerCase [] = []"
  by (simp add: toLowerCase_def)

lemma toLowerCase_decimal [simp]: "toLowerCase (decimal n) = decimal n"
  unfolding toLowerCase_def using decimal_digits [of n]
  by (simp add: map_idI lowerChar_digit)

lemma space_toLowerCase [simp]: "(CHR '' '' \<in> set (toLowerCase s)) = (CHR '' '' \<in> set s)"
proof (induction s)
  case Nil
  show ?case by simp
next
  case (Cons c s)
  have "(CHR '' '' = lowerChar c) = (CHR '' '' = c)"
    using lowerChar_space [of c] by (simp only: eq_commute)
  with Cons show ?case by simp
qed

lemma space_decimal [simp]: "CHR '' '' \<notin> set (decimal n)"
  using decimal_digits [of n] digit_not_ws space_is_ws by blast

lemma splitOn_no_sep: "sep \<notin> set s \<Longrightarrow> splitOn sep s = [s]"
  by (induction s) auto

lemma splitOn_append_sep: "sep \<notin> set a \<Longrightarrow> splitOn sep (a @ sep # b) = a # splitOn sep b"
  by (induction a) auto

lemma splitOn_two:
  assumes "sep \<notin> set a" "sep \<notin> set b"
  shows "splitOn sep (a @ sep # b) = [a, b]"
  using assms by (simp add: splitOn_append_sep splitOn_no_sep)

subsection \<open>Rounding to a double\<close>

lemma bitLength_upper: "m < 2 ^ bitLength m"
proof (induction m rule: bitLength.induct)
  case (1 m)
  show ?case
  proof (cases "m = 0")
    case True
    then show ?thesis
      by (subst bitLength.simps) simp
  next
    case False
    with 1 have "m div 2 < 2 ^ bitLength (m div 2)"
      by simp
    then have "m < 2 * 2 ^ bitLength (m div 2)"
      by linarith
    with False show ?thesis
      by (subst bitLength.simps) simp
  qed
qed

lemma bitLength_lower: "0 < m \<Longrightarrow> 2 ^ (bitLength m - 1) \<le> m"
proof (induction m rule: bitLength.induct)
  case (1 m)
  show ?case
  proof (cases "m div 2 = 0")
    case True
    with 1(2) have "bitLength m = 1"
      by (subst bitLength.simps, subst bitLength.simps) simp
    with 1(2) show ?thesis
      by simp
  next
    case False
    with 1 have ih: "2 ^ (bitLength (m div 2) - 1) \<le> m div 2"
      by simp
    from False have pos: "0 < bitLength (m div 2)"
      by (subst bitLength.simps) simp
    have "bitLength m = Suc (bitLength (m div 2))"
      using 1(2) by (subst bitLength.simps) simp
    then have "(2::nat) ^ (bitLength m - 1) = 2 * 2 ^ (bitLength (m div 2) - 1)"
      using pos by (cases "bitLength (m div 2)") simp_all
    with ih show ?thesis
      by linarith
  qed
qed

lemma bitLength_between:
  assumes "2 ^ a \<le> m" "m < 2 ^ b"
  shows "a < bitLength m" "bitLength m \<le> b"
proof -
  have "(2::nat) ^ a < 2 ^ bitLength m"
    using assms(1) bitLength_upper [of m] by linarith
  then show "a < bitLength m"
    by simp
  have "0 < m"
    using assms(1) by (cases "m = 0") simp_all
  then have "(2::nat) ^ (bitLength m - 1) < 2 ^ b"
    using bitLength_lower [of m] assms(2) by linarith
  then have "bitLength m - 1 < b"
    by simp
  then show "bitLength m \<le> b"
    by linarith
qed

lemma roundToDouble_small: "m < 2 ^ 53 \<Longrightarrow> roundToDouble m = Some m"
  by (simp add: roundToDouble_def)

lemma roundToDouble_exact:
  assumes "2 ^ 53 \<le> m" "2 ^ e dvd m" "bitLength m - 53 = e" "m < 2 ^ 1024"
  shows "roundToDouble m = Some m"
proof -
  have r: "m mod 2 ^ e = 0"
    using assms(2) by simp
  have q: "m div 2 ^ e * 2 ^ e = m"
    using assms(2) by simp
  have half: "(0::nat) < 2 ^ (e - 1)"
    by simp
  show ?thesis
    using assms(1,4) half
    by (simp add: roundToDouble_def assms(3) Let_def r q)
qed

lemma roundToDouble_times_4:
  assumes "n < 2 ^ 53"
  shows "roundToDouble (n * 4) = Some (n * 4)"
proof (cases "n * 4 < 2 ^ 53")
  case True
  then show ?thesis
    by (rule roundToDouble_small)
next
  case False
  then have lo: "2 ^ 53 \<le> n * 4"
    by simp
  have hi: "n * 4 < 2 ^ 55"
    using assms by simp
  have "53 < bitLength (n * 4)" "bitLength (n * 4) \<le> 55"
    using bitLength_between [OF lo hi] by simp_all
  then consider "bitLength (n * 4) - 53 = 1" | "bitLength (n * 4) - 53 = 2"
    by linarith
  then show ?thesis
  proof cases
    case 1
    have "2 ^ 1 dvd n * 4"
      by simp
    moreover have "n * 4 < 2 ^ 1024"
      using hi by (rule less_le_trans) simp
    ultimately show ?thesis
      using lo 1 by (intro roundToDouble_exact)
  next
    case 2
    have "2 ^ 2 dvd n * 4"
      by simp
    moreover have "n * 4 < 2 ^ 1024"
      using hi by (rule less_le_trans) simp
    ultimately show ?thesis
      using lo 2 by (intro roundToDouble_exact)
  qed
qed

lemma numberOf_small: "n < 2 ^ 53 \<Longrightarrow> numberOf negative n = signedInteger negative n"
  by (simp add: numberOf_def roundToDouble_small)

lemma timesFour_signedInteger:
  assumes "n < 2 ^ 53"
  shows "timesFour (signedInteger negative n) = signedInteger negative (n * 4)"
proof (cases "negative \<and> n = 0")
  case True
  then show ?thesis
    by (simp add: signedInteger_def)
next
  case False
  have "timesFour (signedInteger negative n) = numberOf negative (n * 4)"
    using False by (auto simp: signedInteger_def)
  then show ?thesis
    by (simp add: numberOf_def roundToDouble_times_4 [OF assms])
qed

subsection \<open>parseInt\<close>

lemma takeWhile_digits:
  assumes "\<forall>c \<in> set ds. P c" "rest = [] \<or> \<not> P (hd rest)"
  shows "takeWhile P (ds @ rest) = ds"
proof -
  have "takeWhile P rest = []"
    using assms(2) by (cases rest) auto
  with assms(1) show ?thesis
    by (simp add: takeWhile_append2)
qed

lemma parseInt_decimal_digits:
  assumes "take 2 S1 \<noteq> ''0x''" "take 2 S1 \<noteq> ''0X''"
    and "takeWhile (isRadixDigit 10) S1 = Z" "Z \<noteq> []"
    and "dropWhile StrWhiteSpaceChar S1 = S1" "hd S1 \<noteq> CHR ''+''" "hd S1 \<noteq> CHR ''-''"
  shows "parseInt S1 = Some (numberOf False (mathInt 10 Z))"
    and "parseInt (CHR ''+'' # S1) = Some (numberOf False (mathInt 10 Z))"
    and "parseInt (CHR ''-'' # S1) = Some (numberOf True (mathInt 10 Z))"
proof -
  have nows: "\<not> StrWhiteSpaceChar CHR ''+''" "\<not> StrWhiteSpaceChar CHR ''-''"
    by (simp_all add: StrWhiteSpaceChar_def)
  show "parseInt S1 = Some (numberOf False (mathInt 10 Z))"
    using assms by (simp add: parseInt_def Let_def)
  show "parseInt (CHR ''+'' # S1) = Some (numberOf False (mathInt 10 Z))"
    using assms(1-4) nows by (simp add: parseInt_def Let_def)
  show "parseInt (CHR ''-'' # S1) = Some (numberOf True (mathInt 10 Z))"
    using assms(1-4) nows by (simp add: parseInt_def Let_def)
qed

lemma mathInt_leading_zeros: "mathInt 10 (replicate z CHR ''0'' @ Z) = mathInt 10 Z"
proof -
  have "foldl (\<lambda>acc c. case digitOf c of None \<Rightarrow> acc | Some d \<Rightarrow> acc * 10 + d) 0
          (replicate z CHR ''0'') = 0"
    by (induction z) (simp_all add: digitOf_def)
  then show ?thesis
    by (simp add: mathInt_def)
qed

lemma zero_is_digit: "isRadixDigit 10 CHR ''0''"
  by (simp add: isRadixDigit_10_code)

lemma parseInt_signed_decimal:
  assumes "sg = [] \<or> sg = ''+'' \<or> sg = ''-''"
    and "rest = [] \<or> \<not> isRadixDigit 10 (hd rest)"
    and "take 2 (replicate z CHR ''0'' @ decimal n @ rest) \<noteq> ''0x''"
    and "take 2 (replicate z CHR ''0'' @ decimal n @ rest) \<noteq> ''0X''"
  shows "parseInt (sg @ replicate z CHR ''0'' @ decimal n @ rest) = Some (numberOf (sg = ''-'') n)"
proof -
  let ?ds = "replicate z CHR ''0'' @ decimal n"
  have digits: "\<forall>c \<in> set ?ds. isRadixDigit 10 c"
    using decimal_digits [of n] zero_is_digit by auto
  obtain d ds where dec: "?ds = d # ds"
    by (cases ?ds) simp_all
  then have d: "isRadixDigit 10 d"
    using digits by (metis list.set_intros(1))
  have split: "?ds @ rest = d # ds @ rest"
    by (simp only: dec append_Cons)
  have S: "dropWhile StrWhiteSpaceChar (?ds @ rest) = ?ds @ rest"
    unfolding split using digit_not_ws [OF d] by simp
  have nosign: "hd (?ds @ rest) \<noteq> CHR ''+''" "hd (?ds @ rest) \<noteq> CHR ''-''"
    unfolding split using digit_not_sign [OF d] by simp_all
  have Z: "takeWhile (isRadixDigit 10) (?ds @ rest) = ?ds"
    using digits assms(2) by (rule takeWhile_digits)
  have ne: "?ds \<noteq> []"
    by simp
  have hex: "take 2 (?ds @ rest) \<noteq> ''0x''" "take 2 (?ds @ rest) \<noteq> ''0X''"
    using assms(3,4) by simp_all
  have M: "mathInt 10 ?ds = n"
    by (simp only: mathInt_leading_zeros mathInt_decimal)
  note p = parseInt_decimal_digits [OF hex Z ne S nosign, unfolded M]
  from assms(1) show ?thesis
  proof (elim disjE)
    assume "sg = []"
    then show ?thesis
      using p(1) by simp
  next
    assume "sg = ''+''"
    then show ?thesis
      using p(2) by simp
  next
    assume "sg = ''-''"
    then show ?thesis
      using p(3) by simp
  qed
qed

lemma parseInt_nonNumeric:
  assumes "t \<noteq> []" "\<not> StrWhiteSpaceChar (hd t)" "nonNumeric t"
  shows "parseInt (toLowerCase t) = None"
proof -
  obtain c cs where t: "t = c # cs"
    using assms(1) by (cases t) simp_all
  have S: "dropWhile StrWhiteSpaceChar (lowerChar c # toLowerCase cs) = lowerChar c # toLowerCase cs"
    using assms(2) by (simp add: t)
  show ?thesis
  proof (cases "c = CHR ''+'' \<or> c = CHR ''-''")
    case True
    with assms(3) have nn: "cs = [] \<or> \<not> isRadixDigit 10 (hd cs)"
      by (auto simp: nonNumeric_def t split: list.splits)
    have nd: "\<not> isRadixDigit 10 CHR ''0''" if "cs \<noteq> []" "hd cs = CHR ''0''"
      using nn that by simp
    have zero: "isRadixDigit 10 CHR ''0''"
      by (simp add: isRadixDigit_10_code)
    have nohex: "take 2 (toLowerCase cs) \<noteq> ''0x''" "take 2 (toLowerCase cs) \<noteq> ''0X''"
      using nn zero by (cases cs; auto simp: lowerChar_below_65)+
    have Z: "takeWhile (isRadixDigit 10) (toLowerCase cs) = []"
      using nn by (cases cs) auto
    show ?thesis
      unfolding parseInt_def Let_def t toLowerCase_Cons S
      using True nohex Z by auto
  next
    case False
    with assms(3) have nn: "\<not> isRadixDigit 10 c"
      by (auto simp: nonNumeric_def t)
    have zero: "isRadixDigit 10 CHR ''0''"
      by (simp add: isRadixDigit_10_code)
    have "c \<noteq> CHR ''0''"
      using nn zero by auto
    then have nohex: "take 2 (toLowerCase t) \<noteq> ''0x''" "take 2 (toLowerCase t) \<noteq> ''0X''"
      by (auto simp: t lowerChar_below_65)
    have Z: "takeWhile (isRadixDigit 10) (lowerChar c # toLowerCase cs) = []"
      using nn by simp
    show ?thesis
      unfolding parseInt_def Let_def t toLowerCase_Cons S
      using False nohex [unfolded t toLowerCase_Cons] Z by auto
  qed
qed

subsection \<open>The age parser on strings of tokens\<close>

lemma parseAgeToWeeks_parts:
  assumes "s \<noteq> []"
  shows "parseAgeToWeeks (JStr s) =
           (let parts = splitOn CHR '' '' (toLowerCase (trim s))
            in if length parts < 2 then Finite 0
               else (case parseInt (parts ! 0) of
                       None \<Rightarrow> Finite 0
                     | Some v \<Rightarrow>
                         if includesStr (parts ! 1) ''week'' then v
                         else if includesStr (parts ! 1) ''month'' then timesFour v
                         else Finite 0))"
  using assms by (simp add: parseAgeToWeeks_def Let_def split: option.split)

lemma parseAgeToWeeks_eval:
  assumes "s \<noteq> []" "splitOn CHR '' '' (toLowerCase (trim s)) = p0 # p1 # ps"
  shows "parseAgeToWeeks (JStr s) =
           (case parseInt p0 of
              None \<Rightarrow> Finite 0
            | Some v \<Rightarrow>
                if includesStr p1 ''week'' then v
                else if includesStr p1 ''month'' then timesFour v
                else Finite 0)"
  using assms by (simp add: parseAgeToWeeks_parts Let_def split: option.split)

lemma parseAgeToWeeks_one_part:
  assumes "CHR '' '' \<notin> set (trim s)"
  shows "parseAgeToWeeks (JStr s) = Finite 0"
proof (cases "s = []")
  case True
  then show ?thesis
    by (simp add: parseAgeToWeeks_def)
next
  case False
  from assms have "splitOn CHR '' '' (toLowerCase (trim s)) = [toLowerCase (trim s)]"
    by (simp add: splitOn_no_sep)
  then show ?thesis
    by (simp add: parseAgeToWeeks_parts [OF False])
qed

lemma trim_two_tokens:
  assumes "isToken t" "isToken u" "list_all StrWhiteSpaceChar sep"
  shows "trim (t @ sep @ u) = t @ sep @ u"
proof (rule trim_no_outer_ws)
  show "t @ sep @ u \<noteq> []"
    using isToken_ends(1) [OF assms(1)] by simp
  show "\<not> StrWhiteSpaceChar (hd (t @ sep @ u))"
    using isToken_ends(1,2) [OF assms(1)] by simp
  show "\<not> StrWhiteSpaceChar (last (t @ sep @ u))"
    using isToken_ends(1,3) [OF assms(2)] by simp
qed

lemma parseAgeToWeeks_two_tokens:
  assumes "isToken t" "isToken u"
  shows "parseAgeToWeeks (JStr (t @ '' '' @ u)) =
           (case parseInt (toLowerCase t) of
              None \<Rightarrow> Finite 0
            | Some v \<Rightarrow>
                if includesStr (toLowerCase u) ''week'' then v
                else if includesStr (toLowerCase u) ''month'' then timesFour v
                else Finite 0)"
proof -
  let ?s = "t @ '' '' @ u"
  have ne: "?s \<noteq> []"
    by simp
  have tr: "trim ?s = ?s"
    using assms by (rule trim_two_tokens) simp
  have lo: "toLowerCase ?s = toLowerCase t @ CHR '' '' # toLowerCase u"
    by simp
  have sp: "splitOn CHR '' '' (toLowerCase (trim ?s)) = toLowerCase t # toLowerCase u # []"
    unfolding tr lo
    using isToken_ends(4) [OF assms(1)] isToken_ends(4) [OF assms(2)]
    by (simp add: splitOn_two)
  show ?thesis
    by (rule parseAgeToWeeks_eval [OF ne sp])
qed

lemma trim_padded:
  assumes "list_all StrWhiteSpaceChar w1" "list_all StrWhiteSpaceChar w2"
    and "s \<noteq> []" "\<not> StrWhiteSpaceChar (hd s)" "\<not> StrWhiteSpaceChar (last s)"
  shows "trim (w1 @ s @ w2) = s"
proof -
  have w1: "\<forall>c \<in> set w1. StrWhiteSpaceChar c" and w2: "\<forall>c \<in> set (rev w2). StrWhiteSpaceChar c"
    using assms(1,2) by (simp_all add: list_all_iff)
  have "dropWhile StrWhiteSpaceChar (w1 @ s @ w2) = dropWhile StrWhiteSpaceChar (s @ w2)"
    using w1 by (simp add: dropWhile_append2)
  moreover have "dropWhile StrWhiteSpaceChar (s @ w2) = s @ w2"
    using assms(3,4) by (cases s) simp_all
  moreover have "dropWhile StrWhiteSpaceChar (rev w2 @ rev s) = dropWhile StrWhiteSpaceChar (rev s)"
    using w2 by (simp only: dropWhile_append2)
  moreover have "dropWhile StrWhiteSpaceChar (rev s) = rev s"
    using assms(3,5) by (cases "rev s") (simp_all add: hd_rev)
  ultimately show ?thesis
    by (simp add: trim_def)
qed

lemma parseAgeToWeeks_same_trim:
  assumes "a \<noteq> []" "b \<noteq> []" "trim a = trim b"
  shows "parseAgeToWeeks (JStr a) = parseAgeToWeeks (JStr b)"
  using assms by (simp add: parseAgeToWeeks_parts)

lemma parseAgeToWeeks_padded_tokens:
  assumes "list_all StrWhiteSpaceChar w1" "list_all StrWhiteSpaceChar w2"
    and "isToken t" "isToken u"
  shows "parseAgeToWeeks (JStr (w1 @ t @ mid @ u @ w2)) = parseAgeToWeeks (JStr (t @ mid @ u))"
proof -
  let ?s = "t @ mid @ u"
  have ne: "?s \<noteq> []"
    using isToken_ends(1) [OF assms(3)] by simp
  have h: "\<not> StrWhiteSpaceChar (hd ?s)"
    using isToken_ends(1,2) [OF assms(3)] by simp
  have l: "\<not> StrWhiteSpaceChar (last ?s)"
    using isToken_ends(1,3) [OF assms(4)] by simp
  have "trim (w1 @ ?s @ w2) = ?s"
    using assms(1,2) ne h l by (rule trim_padded)
  moreover have "trim ?s = ?s"
    using ne h l by (rule trim_no_outer_ws)
  ultimately have tr: "trim (w1 @ ?s @ w2) = trim ?s"
    by simp
  have ne': "w1 @ ?s @ w2 \<noteq> []"
    using isToken_ends(1) [OF assms(3)] by simp
  have "parseAgeToWeeks (JStr (w1 @ ?s @ w2)) = parseAgeToWeeks (JStr ?s)"
    using ne' ne tr by (rule parseAgeToWeeks_same_trim)
  then show ?thesis
    by simp
qed

lemma isToken_signed_decimal_suffix:
  assumes "sg = [] \<or> sg = ''+'' \<or> sg = ''-''" "list_all (\<lambda>c. \<not> StrWhiteSpaceChar c) sfx"
  shows "isToken (sg @ replicate z CHR ''0'' @ decimal n @ sfx)"
proof -
  have "\<not> StrWhiteSpaceChar CHR ''+''" "\<not> StrWhiteSpaceChar CHR ''-''"
    "\<not> StrWhiteSpaceChar CHR ''0''"
    by (simp_all add: StrWhiteSpaceChar_def)
  then show ?thesis
    using assms decimal_digits [of n] digit_not_ws
    by (auto simp: isToken_def list_all_iff)
qed

lemma parseAgeToWeeks_number_unit:
  assumes "sg = [] \<or> sg = ''+'' \<or> sg = ''-''"
    and "n < 2 ^ 53"
    and "list_all (\<lambda>c. \<not> StrWhiteSpaceChar c) sfx"
    and "sfx = [] \<or> \<not> isRadixDigit 10 (hd sfx)"
    and "\<not> prefix ''0x'' (toLowerCase (replicate z CHR ''0'' @ decimal n @ sfx))"
    and "isToken u"
  shows "parseAgeToWeeks (JStr (sg @ replicate z CHR ''0'' @ decimal n @ sfx @ '' '' @ u)) =
           (if includesStr (toLowerCase u) ''week'' then signedInteger (sg = ''-'') n
            else if includesStr (toLowerCase u) ''month'' then signedInteger (sg = ''-'') (n * 4)
            else Finite 0)"
proof -
  let ?zs = "replicate z CHR ''0''"
  have zs: "toLowerCase ?zs = ?zs"
    by (simp add: toLowerCase_def lowerChar_def)
  have rest: "toLowerCase sfx = [] \<or> \<not> isRadixDigit 10 (hd (toLowerCase sfx))"
    using assms(4) by (cases sfx) simp_all
  have nox: "take 2 (?zs @ decimal n @ toLowerCase sfx) \<noteq> ''0x''"
  proof
    assume "take 2 (?zs @ decimal n @ toLowerCase sfx) = ''0x''"
    then have "prefix ''0x'' (?zs @ decimal n @ toLowerCase sfx)"
      by (metis take_is_prefix)
    with assms(5) show False
      by (simp add: zs)
  qed
  have noX: "take 2 (?zs @ decimal n @ toLowerCase sfx) \<noteq> ''0X''"
  proof
    assume "take 2 (?zs @ decimal n @ toLowerCase sfx) = ''0X''"
    then have "CHR ''X'' \<in> set (take 2 (toLowerCase (?zs @ decimal n @ sfx)))"
      by (simp add: zs)
    then have "CHR ''X'' \<in> set (toLowerCase (?zs @ decimal n @ sfx))"
      by (rule in_set_takeD)
    moreover have "\<forall>c \<in> set (toLowerCase (?zs @ decimal n @ sfx)). c \<noteq> CHR ''X''"
      unfolding toLowerCase_def by auto
    ultimately show False
      by blast
  qed
  have sg: "toLowerCase sg = sg"
    using assms(1) by (auto simp: lowerChar_def)
  have low: "toLowerCase (sg @ ?zs @ decimal n @ sfx) = sg @ ?zs @ decimal n @ toLowerCase sfx"
    by (simp add: sg zs)
  have "parseInt (toLowerCase (sg @ ?zs @ decimal n @ sfx)) = Some (signedInteger (sg = ''-'') n)"
    unfolding low
    using parseInt_signed_decimal [OF assms(1) rest nox noX] numberOf_small [OF assms(2)]
    by simp
  moreover have "parseAgeToWeeks (JStr ((sg @ ?zs @ decimal n @ sfx) @ '' '' @ u)) =
           (case parseInt (toLowerCase (sg @ ?zs @ decimal n @ sfx)) of
              None \<Rightarrow> Finite 0
            | Some v \<Rightarrow>
                if includesStr (toLowerCase u) ''week'' then v
                else if includesStr (toLowerCase u) ''month'' then timesFour v
                else Finite 0)"
    using isToken_signed_decimal_suffix [OF assms(1,3)] assms(6)
    by (rule parseAgeToWeeks_two_tokens)
  ultimately show ?thesis
    by (simp add: timesFour_signedInteger [OF assms(2)])
qed

lemma decimal_no_hex_prefix: "\<not> prefix ''0x'' (toLowerCase (replicate 0 CHR ''0'' @ decimal n @ []))"
proof
  assume "prefix ''0x'' (toLowerCase (replicate 0 CHR ''0'' @ decimal n @ []))"
  then have "CHR ''x'' \<in> set (decimal n)"
    by (auto simp: prefix_def)
  then show False
    using decimal_digits [of n] digit_not_sign by blast
qed

lemma parseAgeToWeeks_several_spaces:
  assumes "isToken t" "isToken u"
  shows "parseAgeToWeeks (JStr (t @ replicate (Suc (Suc k)) CHR '' '' @ u)) = Finite 0"
proof -
  let ?s = "t @ replicate (Suc (Suc k)) CHR '' '' @ u"
  have ne: "?s \<noteq> []"
    by simp
  have tr: "trim ?s = ?s"
    using assms by (rule trim_two_tokens) (simp add: list_all_iff)
  have lo: "toLowerCase ?s
              = toLowerCase t @ CHR '' '' # CHR '' '' # toLowerCase (replicate k CHR '' '' @ u)"
    by simp
  have sp: "splitOn CHR '' '' (toLowerCase (trim ?s))
              = toLowerCase t # [] # splitOn CHR '' '' (toLowerCase (replicate k CHR '' '' @ u))"
    unfolding tr lo
    using isToken_ends(4) [OF assms(1)] by (simp add: splitOn_append_sep)
  from parseAgeToWeeks_eval [OF ne sp] show ?thesis
    by (simp split: option.split)
qed

lemma parseAgeToWeeks_other_separator:
  assumes "isToken t" "isToken u" "StrWhiteSpaceChar w" "w \<noteq> CHR '' ''"
  shows "parseAgeToWeeks (JStr (t @ [w] @ u)) = Finite 0"
proof (rule parseAgeToWeeks_one_part)
  have "trim (t @ [w] @ u) = t @ [w] @ u"
    using assms(1,2) by (rule trim_two_tokens) (simp add: assms(3))
  then show "CHR '' '' \<notin> set (trim (t @ [w] @ u))"
    using isToken_ends(4) [OF assms(1)] isToken_ends(4) [OF assms(2)] assms(4) by auto
qed

lemma parseAgeToWeeks_fewer_tokens:
  assumes "list_all StrWhiteSpaceChar w1" "list_all StrWhiteSpaceChar w2" "t = [] \<or> isToken t"
  shows "parseAgeToWeeks (JStr (w1 @ t @ w2)) = Finite 0"
proof (rule parseAgeToWeeks_one_part)
  have "trim (w1 @ t @ w2) = t"
    using assms by (rule trim_padded_token)
  then show "CHR '' '' \<notin> set (trim (w1 @ t @ w2))"
    using assms(3) isToken_ends(4) by auto
qed

lemma parseAgeToWeeks_nonNumeric:
  assumes "isToken t" "isToken u" "nonNumeric t"
  shows "parseAgeToWeeks (JStr (t @ '' '' @ u)) = Finite 0"
  unfolding parseAgeToWeeks_two_tokens [OF assms(1,2)]
  using parseInt_nonNumeric [OF isToken_ends(1,2) [OF assms(1)] assms(3)]
  by simp

lemma parseAgeToWeeks_unknown_unit:
  assumes "isToken t" "isToken u"
    and "\<not> includesStr (toLowerCase u) ''week''" "\<not> includesStr (toLowerCase u) ''month''"
  shows "parseAgeToWeeks (JStr (t @ '' '' @ u)) = Finite 0"
  unfolding parseAgeToWeeks_two_tokens [OF assms(1,2)]
  using assms(3,4) by (simp split: option.split)

lemma parseAgeToWeeks_not_a_string:
  "parseAgeToWeeks JUndefined = Finite 0" "parseAgeToWeeks JNull = Finite 0" "parseAgeToWeeks (JBool b) = Finite 0"
  "parseAgeToWeeks (JNum k) = Finite 0" "parseAgeToWeeks (JObj x) = Finite 0" "parseAgeToWeeks (JFun x) = Finite 0"
  "parseAgeToWeeks (JStr []) = Finite 0"
  by (simp_all add: parseAgeToWeeks_def)

subsection \<open>A numeral beyond the exact range\<close>

lemma roundToDouble_tie_to_even: "roundToDouble 9007199254740993 = Some 9007199254740992"
proof -
  have "53 < bitLength 9007199254740993"
    by (rule bitLength_between(1) [where b = 54]) simp_all
  moreover have "bitLength 9007199254740993 \<le> 54"
    by (rule bitLength_between(2) [where a = 53]) simp_all
  ultimately have "bitLength 9007199254740993 = 54"
    by linarith
  then show ?thesis
    by (simp add: roundToDouble_def Let_def)
qed

lemma decimal_beyond_2_53: "decimal 9007199254740993 = ''9007199254740993''"
  by (simp add: decimal.simps digitChar_def) code_simp

lemma parseAgeToWeeks_beyond_2_53:
  "parseAgeToWeeks (JStr ''9007199254740993 weeks'') = Finite 9007199254740992"
proof -
  have tok: "isToken ''9007199254740993''" "isToken ''weeks''"
    by (simp_all add: isToken_def StrWhiteSpaceChar_def)
  have "mathInt 10 ''9007199254740993'' = 9007199254740993"
    by (simp add: mathInt_def digitOf_def)
  then have "parseInt (toLowerCase ''9007199254740993'') = Some (Finite 9007199254740992)"
    by (simp add: parseInt_def lowerChar_def StrWhiteSpaceChar_def isRadixDigit_def digitOf_def
        numberOf_def roundToDouble_tie_to_even signedInteger_def)
  moreover have "includesStr (toLowerCase ''weeks'') ''week''"
    by code_simp
  ultimately show ?thesis
    using parseAgeToWeeks_two_tokens [OF tok] by simp
qed

subsection \<open>Weeks, months and the zero default\<close>

text \<open>
  Claim C3, as the code has it. An age string \<open>''N weeks''\<close> is the decimal numeral of
  \<open>N\<close>, one space and a unit token. For \<open>N < 2^53\<close>, when the lowercase form of the unit
  contains \<open>''week''\<close> the age parser returns \<open>N\<close>; when it contains \<open>''month''\<close> and does
  not contain \<open>''week''\<close> the parser returns \<open>4 * N\<close>: the test for \<open>''week''\<close> comes
  first, so a unit that contains both is read as weeks. The bound is there because
  \<^verbatim>\<open>parseInt\<close> returns a double, which is \<open>N\<close> itself only as long as \<open>N\<close> is a double. The
  parser returns \<open>0\<close> for a missing value, for a value that is not a string, for a
  string with fewer than two tokens (no token, or one token with white space around it),
  for two tokens whose first one is not numeric, and for two tokens whose unit contains
  neither word. It never raises an error: \<open>parseAgeToWeeks\<close> is a total function.
\<close>

theorem parseAgeToWeeks_weeks_months_zero:
  "(isToken u \<and> includesStr (toLowerCase u) ''week'' \<and> n < 2 ^ 53 \<longrightarrow>
      parseAgeToWeeks (JStr (decimal n @ '' '' @ u)) = Finite (int n)) \<and>
   (isToken u \<and> includesStr (toLowerCase u) ''month'' \<and>
    \<not> includesStr (toLowerCase u) ''week'' \<and> n < 2 ^ 53 \<longrightarrow>
      parseAgeToWeeks (JStr (decimal n @ '' '' @ u)) = Finite (4 * int n)) \<and>
   parseAgeToWeeks JUndefined = Finite 0 \<and> parseAgeToWeeks JNull = Finite 0 \<and>
   parseAgeToWeeks (JBool b) = Finite 0 \<and> parseAgeToWeeks (JNum k) = Finite 0 \<and>
   parseAgeToWeeks (JObj x) = Finite 0 \<and> parseAgeToWeeks (JFun x) = Finite 0 \<and>
   (list_all StrWhiteSpaceChar w1 \<and> list_all StrWhiteSpaceChar w2 \<and> (t = [] \<or> isToken t) \<longrightarrow>
      parseAgeToWeeks (JStr (w1 @ t @ w2)) = Finite 0) \<and>
   (isToken t \<and> isToken u \<and> nonNumeric t \<longrightarrow>
      parseAgeToWeeks (JStr (t @ '' '' @ u)) = Finite 0) \<and>
   (isToken t \<and> isToken u \<and> \<not> includesStr (toLowerCase u) ''week'' \<and>
    \<not> includesStr (toLowerCase u) ''month'' \<longrightarrow>
      parseAgeToWeeks (JStr (t @ '' '' @ u)) = Finite 0)"
proof -
  have num: "parseAgeToWeeks (JStr (decimal n @ '' '' @ u)) =
           (if includesStr (toLowerCase u) ''week'' then Finite (int n)
            else if includesStr (toLowerCase u) ''month'' then Finite (4 * int n)
            else Finite 0)" if "isToken u" "n < 2 ^ 53"
    using parseAgeToWeeks_number_unit [of "[]" n "[]" 0 u] decimal_no_hex_prefix [of n] that
    by (simp add: signedInteger_def mult.commute)
  have weeks: "isToken u \<and> includesStr (toLowerCase u) ''week'' \<and> n < 2 ^ 53 \<longrightarrow>
      parseAgeToWeeks (JStr (decimal n @ '' '' @ u)) = Finite (int n)"
    using num by simp
  have months: "isToken u \<and> includesStr (toLowerCase u) ''month'' \<and>
    \<not> includesStr (toLowerCase u) ''week'' \<and> n < 2 ^ 53 \<longrightarrow>
      parseAgeToWeeks (JStr (decimal n @ '' '' @ u)) = Finite (4 * int n)"
    using num by simp
  show ?thesis
    using weeks months parseAgeToWeeks_not_a_string
      parseAgeToWeeks_fewer_tokens [of w1 w2 t]
      parseAgeToWeeks_nonNumeric [of t u] parseAgeToWeeks_unknown_unit [of t u]
    by blast
qed

theorem parseAgeToWeeks_weeks_months_zero_witness:
  "parseAgeToWeeks (JStr ''11 weeks'') = Finite 11 \<and>
   parseAgeToWeeks (JStr ''3 Months'') = Finite 12 \<and>
   parseAgeToWeeks JUndefined = Finite 0 \<and>
   parseAgeToWeeks (JStr ''  weeks '') = Finite 0 \<and>
   parseAgeToWeeks (JStr ''about weeks'') = Finite 0 \<and>
   parseAgeToWeeks (JStr ''5 days'') = Finite 0"
proof -
  have tok: "isToken ''weeks''" "isToken ''Months''" "isToken ''about''" "isToken ''5''"
    "isToken ''days''"
    by (simp_all add: isToken_def StrWhiteSpaceChar_def)
  have ws: "list_all StrWhiteSpaceChar ''  ''" "list_all StrWhiteSpaceChar '' ''"
    by (simp_all add: StrWhiteSpaceChar_def)
  have unit: "includesStr (toLowerCase ''weeks'') ''week''"
    "includesStr (toLowerCase ''Months'') ''month''"
    "\<not> includesStr (toLowerCase ''Months'') ''week''"
    "\<not> includesStr (toLowerCase ''days'') ''week''"
    "\<not> includesStr (toLowerCase ''days'') ''month''"
    by code_simp+
  have nn: "nonNumeric ''about''"
    by code_simp
  have dec: "decimal 11 = ''11''" "decimal 3 = ''3''"
    by code_simp+
  have small: "(11::nat) < 2 ^ 53" "(3::nat) < 2 ^ 53"
    by simp_all
  have "parseAgeToWeeks (JStr (decimal 11 @ '' '' @ ''weeks'')) = Finite (int 11)"
    using parseAgeToWeeks_weeks_months_zero [of "''weeks''" 11] tok unit small by blast
  then have a: "parseAgeToWeeks (JStr ''11 weeks'') = Finite 11"
    by (simp add: dec)
  have "parseAgeToWeeks (JStr (decimal 3 @ '' '' @ ''Months'')) = Finite (4 * int 3)"
    using parseAgeToWeeks_weeks_months_zero [of "''Months''" 3] tok unit small by blast
  then have b: "parseAgeToWeeks (JStr ''3 Months'') = Finite 12"
    by (simp add: dec)
  have c: "parseAgeToWeeks JUndefined = Finite 0"
    using parseAgeToWeeks_weeks_months_zero by blast
  have "parseAgeToWeeks (JStr (''  '' @ ''weeks'' @ '' '')) = Finite 0"
    using parseAgeToWeeks_weeks_months_zero [where ?w1.0 = "''  ''" and ?w2.0 = "'' ''" and t = "''weeks''"]
      tok ws by blast
  then have d: "parseAgeToWeeks (JStr ''  weeks '') = Finite 0"
    by simp
  have "parseAgeToWeeks (JStr (''about'' @ '' '' @ ''weeks'')) = Finite 0"
    using parseAgeToWeeks_weeks_months_zero [where t = "''about''" and u = "''weeks''"]
      tok nn by blast
  then have e: "parseAgeToWeeks (JStr ''about weeks'') = Finite 0"
    by simp
  have "parseAgeToWeeks (JStr (''5'' @ '' '' @ ''days'')) = Finite 0"
    using parseAgeToWeeks_weeks_months_zero [where t = "''5''" and u = "''days''"]
      tok unit by blast
  then have f: "parseAgeToWeeks (JStr ''5 days'') = Finite 0"
    by simp
  from a b c d e f show ?thesis
    by blast
qed

text \<open>
  The claim as written gives \<open>4 * N\<close> for every unit token that contains \<open>''month''\<close>, and
  \<open>N\<close> for every \<open>N\<close>. The unit \<open>''weekmonths''\<close> contains \<open>''month''\<close>, and
  \<open>''2 weekmonths''\<close> parses to \<open>2\<close>; and \<open>''9007199254740993 weeks''\<close>, whose number is
  \<open>2^53 + 1\<close>, parses to \<open>2^53\<close>.
\<close>

theorem parseAgeToWeeks_week_first_and_rounding:
  "isToken ''weekmonths'' \<and>
   includesStr (toLowerCase ''weekmonths'') ''month'' \<and>
   decimal 2 @ '' '' @ ''weekmonths'' = ''2 weekmonths'' \<and>
   parseAgeToWeeks (JStr ''2 weekmonths'') = Finite 2 \<and>
   parseAgeToWeeks (JStr ''2 weekmonths'') \<noteq> Finite (4 * 2) \<and>
   isToken ''weeks'' \<and>
   includesStr (toLowerCase ''weeks'') ''week'' \<and>
   decimal 9007199254740993 @ '' '' @ ''weeks'' = ''9007199254740993 weeks'' \<and>
   parseAgeToWeeks (JStr ''9007199254740993 weeks'') = Finite 9007199254740992 \<and>
   parseAgeToWeeks (JStr ''9007199254740993 weeks'') \<noteq> Finite 9007199254740993"
proof -
  have "isToken ''weekmonths''" "includesStr (toLowerCase ''weekmonths'') ''month''"
    "decimal 2 @ '' '' @ ''weekmonths'' = ''2 weekmonths''"
    "parseAgeToWeeks (JStr ''2 weekmonths'') = Finite 2"
    "isToken ''weeks''" "includesStr (toLowerCase ''weeks'') ''week''"
    by code_simp+
  then show ?thesis
    by (simp add: decimal_beyond_2_53 parseAgeToWeeks_beyond_2_53)
qed

subsection \<open>Tokens and the leading integer\<close>

text \<open>
  Claim C4, as the code has it. The age parser trims the string, so that white space
  before the first and after the second token is ignored, lowercases it and splits it at
  every space character, and at no other white space. Two tokens with one space between
  them are the number, read by \<^verbatim>\<open>parseInt\<close>, and the unit. With two or more spaces between
  them the unit is the empty part between the first two spaces, and with another
  white-space character between them (a tab) there is only one part: in both cases the
  result is \<open>0\<close>. The first token is read with leading-integer semantics: an optional
  sign, decimal digits that write a number \<open>N < 2^53\<close> (leading zeros allowed) and any
  suffix that does not start with a digit yield \<open>N\<close> with that sign, the suffix is
  discarded (\<open>''12.5''\<close> and \<open>''12wk''\<close> yield \<open>12\<close>); the sign \<open>-\<close> before zero yields the
  negative zero. This is stated for first tokens that, after the optional sign, do not
  begin with \<^verbatim>\<open>0x\<close>, which \<^verbatim>\<open>parseInt\<close> without a radix reads in base 16.
\<close>

theorem parseAgeToWeeks_single_space_leading_integer:
  "(list_all StrWhiteSpaceChar w1 \<and> list_all StrWhiteSpaceChar w2 \<and> isToken t \<and> isToken u \<longrightarrow>
      parseAgeToWeeks (JStr (w1 @ t @ '' '' @ u @ w2)) =
        (case parseInt (toLowerCase t) of
           None \<Rightarrow> Finite 0
         | Some v \<Rightarrow>
             if includesStr (toLowerCase u) ''week'' then v
             else if includesStr (toLowerCase u) ''month'' then timesFour v
             else Finite 0) \<and>
      parseAgeToWeeks (JStr (w1 @ t @ replicate (Suc (Suc k)) CHR '' '' @ u @ w2)) = Finite 0 \<and>
      (StrWhiteSpaceChar w \<and> w \<noteq> CHR '' '' \<longrightarrow>
         parseAgeToWeeks (JStr (w1 @ t @ [w] @ u @ w2)) = Finite 0)) \<and>
   (list_all StrWhiteSpaceChar w1 \<and> list_all StrWhiteSpaceChar w2 \<and>
    (sg = [] \<or> sg = ''+'' \<or> sg = ''-'') \<and> n < 2 ^ 53 \<and>
    list_all (\<lambda>c. \<not> StrWhiteSpaceChar c) sfx \<and> (sfx = [] \<or> \<not> isRadixDigit 10 (hd sfx)) \<and>
    \<not> prefix ''0x'' (toLowerCase (replicate z CHR ''0'' @ decimal n @ sfx)) \<and> isToken u \<longrightarrow>
      parseAgeToWeeks (JStr (w1 @ sg @ replicate z CHR ''0'' @ decimal n @ sfx @ '' '' @ u @ w2)) =
        (if includesStr (toLowerCase u) ''week'' then signedInteger (sg = ''-'') n
         else if includesStr (toLowerCase u) ''month'' then signedInteger (sg = ''-'') (n * 4)
         else Finite 0))"
proof -
  have pad: "parseAgeToWeeks (JStr (w1 @ t' @ mid @ u @ w2)) = parseAgeToWeeks (JStr (t' @ mid @ u))"
    if "list_all StrWhiteSpaceChar w1" "list_all StrWhiteSpaceChar w2" "isToken t'" "isToken u"
    for t' mid
    using that by (rule parseAgeToWeeks_padded_tokens)
  have one: "list_all StrWhiteSpaceChar w1 \<and> list_all StrWhiteSpaceChar w2 \<and> isToken t \<and> isToken u \<longrightarrow>
      parseAgeToWeeks (JStr (w1 @ t @ '' '' @ u @ w2)) =
        (case parseInt (toLowerCase t) of
           None \<Rightarrow> Finite 0
         | Some v \<Rightarrow>
             if includesStr (toLowerCase u) ''week'' then v
             else if includesStr (toLowerCase u) ''month'' then timesFour v
             else Finite 0)"
    using pad [of t "'' ''"] parseAgeToWeeks_two_tokens [of t u] by simp
  have several: "list_all StrWhiteSpaceChar w1 \<and> list_all StrWhiteSpaceChar w2 \<and> isToken t \<and> isToken u \<longrightarrow>
      parseAgeToWeeks (JStr (w1 @ t @ replicate (Suc (Suc k)) CHR '' '' @ u @ w2)) = Finite 0"
    using pad [of t "replicate (Suc (Suc k)) CHR '' ''"] parseAgeToWeeks_several_spaces [of t u k]
    by simp
  have other: "list_all StrWhiteSpaceChar w1 \<and> list_all StrWhiteSpaceChar w2 \<and> isToken t \<and> isToken u \<longrightarrow>
      (StrWhiteSpaceChar w \<and> w \<noteq> CHR '' '' \<longrightarrow>
         parseAgeToWeeks (JStr (w1 @ t @ [w] @ u @ w2)) = Finite 0)"
    using pad [of t "[w]"] parseAgeToWeeks_other_separator [of t u w] by simp
  have number: "list_all StrWhiteSpaceChar w1 \<and> list_all StrWhiteSpaceChar w2 \<and>
    (sg = [] \<or> sg = ''+'' \<or> sg = ''-'') \<and> n < 2 ^ 53 \<and>
    list_all (\<lambda>c. \<not> StrWhiteSpaceChar c) sfx \<and> (sfx = [] \<or> \<not> isRadixDigit 10 (hd sfx)) \<and>
    \<not> prefix ''0x'' (toLowerCase (replicate z CHR ''0'' @ decimal n @ sfx)) \<and> isToken u \<longrightarrow>
      parseAgeToWeeks (JStr (w1 @ sg @ replicate z CHR ''0'' @ decimal n @ sfx @ '' '' @ u @ w2)) =
        (if includesStr (toLowerCase u) ''week'' then signedInteger (sg = ''-'') n
         else if includesStr (toLowerCase u) ''month'' then signedInteger (sg = ''-'') (n * 4)
         else Finite 0)"
  proof (intro impI, elim conjE)
    assume a: "list_all StrWhiteSpaceChar w1" "list_all StrWhiteSpaceChar w2"
      "sg = [] \<or> sg = ''+'' \<or> sg = ''-''" "n < 2 ^ 53"
      "list_all (\<lambda>c. \<not> StrWhiteSpaceChar c) sfx" "sfx = [] \<or> \<not> isRadixDigit 10 (hd sfx)"
      "\<not> prefix ''0x'' (toLowerCase (replicate z CHR ''0'' @ decimal n @ sfx))" "isToken u"
    have "parseAgeToWeeks (JStr (w1 @ (sg @ replicate z CHR ''0'' @ decimal n @ sfx) @ '' '' @ u @ w2))
            = parseAgeToWeeks (JStr ((sg @ replicate z CHR ''0'' @ decimal n @ sfx) @ '' '' @ u))"
      using a(1,2) isToken_signed_decimal_suffix [OF a(3,5)] a(8) by (rule pad)
    then show "parseAgeToWeeks (JStr (w1 @ sg @ replicate z CHR ''0'' @ decimal n @ sfx @ '' '' @ u @ w2)) =
        (if includesStr (toLowerCase u) ''week'' then signedInteger (sg = ''-'') n
         else if includesStr (toLowerCase u) ''month'' then signedInteger (sg = ''-'') (n * 4)
         else Finite 0)"
      using parseAgeToWeeks_number_unit [OF a(3,4,5,6,7,8)] by simp
  qed
  from one several other number show ?thesis
    by blast
qed

theorem parseAgeToWeeks_single_space_leading_integer_witness:
  "parseAgeToWeeks (JStr ''  -12.5 Weeks '') = Finite (- 12) \<and>
   parseAgeToWeeks (JStr ''12wk weeks'') = Finite 12 \<and>
   parseAgeToWeeks (JStr ''+03 months'') = Finite 12 \<and>
   parseAgeToWeeks (JStr ''12   weeks'') = Finite 0 \<and>
   parseAgeToWeeks (JStr (''12'' @ [CHR 0x09] @ ''weeks'')) = Finite 0"
proof -
  have tok: "isToken ''weeks''" "isToken ''Weeks''" "isToken ''months''" "isToken ''12''"
    by (simp_all add: isToken_def StrWhiteSpaceChar_def)
  have ws: "list_all StrWhiteSpaceChar ''  ''" "list_all StrWhiteSpaceChar '' ''"
    "list_all StrWhiteSpaceChar []"
    by (simp_all add: StrWhiteSpaceChar_def)
  have unit: "includesStr (toLowerCase ''weeks'') ''week''"
    "includesStr (toLowerCase ''Weeks'') ''week''"
    "\<not> includesStr (toLowerCase ''months'') ''week''"
    "includesStr (toLowerCase ''months'') ''month''"
    by code_simp+
  have dec: "decimal 12 = ''12''" "decimal 3 = ''3''"
    by code_simp+
  have small: "(12::nat) < 2 ^ 53" "(3::nat) < 2 ^ 53"
    by simp_all
  have sfx: "list_all (\<lambda>c. \<not> StrWhiteSpaceChar c) ''.5''" "\<not> isRadixDigit 10 (hd ''.5'')"
    "\<not> prefix ''0x'' (toLowerCase (replicate 0 CHR ''0'' @ decimal 12 @ ''.5''))"
    "list_all (\<lambda>c. \<not> StrWhiteSpaceChar c) ''wk''" "\<not> isRadixDigit 10 (hd ''wk'')"
    "\<not> prefix ''0x'' (toLowerCase (replicate 0 CHR ''0'' @ decimal 12 @ ''wk''))"
    "list_all (\<lambda>c. \<not> StrWhiteSpaceChar c) []"
    "\<not> prefix ''0x'' (toLowerCase (replicate 1 CHR ''0'' @ decimal 3 @ []))"
    by code_simp+
  have tab: "StrWhiteSpaceChar (CHR 0x09)" "CHR 0x09 \<noteq> CHR '' ''"
    by (simp_all add: StrWhiteSpaceChar_def)
  have "parseAgeToWeeks (JStr (''  '' @ ''-'' @ replicate 0 CHR ''0'' @ decimal 12 @ ''.5'' @ '' '' @ ''Weeks'' @ '' ''))
          = signedInteger (''-'' = ''-'') 12"
    using parseAgeToWeeks_single_space_leading_integer
            [where ?w1.0 = "''  ''" and ?w2.0 = "'' ''" and sg = "''-''" and sfx = "''.5''"
               and n = 12 and z = 0 and u = "''Weeks''"]
      tok unit sfx ws small by presburger
  then have a: "parseAgeToWeeks (JStr ''  -12.5 Weeks '') = Finite (- 12)"
    by (simp add: dec signedInteger_def)
  have "parseAgeToWeeks (JStr ([] @ [] @ replicate 0 CHR ''0'' @ decimal 12 @ ''wk'' @ '' '' @ ''weeks'' @ []))
          = signedInteger ([] = ''-'') 12"
    using parseAgeToWeeks_single_space_leading_integer
            [where ?w1.0 = "[]" and ?w2.0 = "[]" and sg = "[]" and sfx = "''wk''"
               and n = 12 and z = 0 and u = "''weeks''"]
      tok unit sfx ws small by presburger
  then have b: "parseAgeToWeeks (JStr ''12wk weeks'') = Finite 12"
    by (simp add: dec signedInteger_def)
  have "parseAgeToWeeks (JStr ([] @ ''+'' @ replicate 1 CHR ''0'' @ decimal 3 @ [] @ '' '' @ ''months'' @ []))
          = signedInteger (''+'' = ''-'') (3 * 4)"
    using parseAgeToWeeks_single_space_leading_integer
            [where ?w1.0 = "[]" and ?w2.0 = "[]" and sg = "''+''" and sfx = "[]"
               and n = 3 and z = 1 and u = "''months''"]
      tok unit sfx ws small by presburger
  then have c: "parseAgeToWeeks (JStr ''+03 months'') = Finite 12"
    by (simp add: dec signedInteger_def)
  have "parseAgeToWeeks (JStr ([] @ ''12'' @ replicate (Suc (Suc 1)) CHR '' '' @ ''weeks'' @ [])) = Finite 0"
    using parseAgeToWeeks_single_space_leading_integer
            [where ?w1.0 = "[]" and ?w2.0 = "[]" and t = "''12''" and u = "''weeks''" and k = 1]
      tok ws by blast
  then have d: "parseAgeToWeeks (JStr ''12   weeks'') = Finite 0"
    by (simp add: numeral_2_eq_2)
  have "parseAgeToWeeks (JStr ([] @ ''12'' @ [CHR 0x09] @ ''weeks'' @ [])) = Finite 0"
    using parseAgeToWeeks_single_space_leading_integer
            [where ?w1.0 = "[]" and ?w2.0 = "[]" and t = "''12''" and u = "''weeks''"
               and w = "CHR 0x09"]
      tok ws tab by blast
  then have e: "parseAgeToWeeks (JStr (''12'' @ [CHR 0x09] @ ''weeks'')) = Finite 0"
    by simp
  from a b c d e show ?thesis
    by blast
qed

text \<open>
  The claim as written says that any white space between the two tokens gives the result
  of a single space, and that the first token is read in base 10. Two spaces and a tab
  give \<open>0\<close> where one space gives \<open>12\<close>; \<open>''0x10 weeks''\<close> parses to \<open>16\<close> and
  \<open>''-0x10 weeks''\<close> to \<open>-16\<close>; and the sixteen digits of \<open>2^53 + 1\<close> parse to \<open>2^53\<close>.
\<close>

theorem parseAgeToWeeks_separator_and_radix:
  "parseAgeToWeeks (JStr ''12 weeks'') = Finite 12 \<and>
   parseAgeToWeeks (JStr ''12  weeks'') = Finite 0 \<and>
   parseAgeToWeeks (JStr (''12'' @ [CHR 0x09] @ ''weeks'')) = Finite 0 \<and>
   parseAgeToWeeks (JStr ''0x10 weeks'') = Finite 16 \<and>
   parseAgeToWeeks (JStr ''-0x10 weeks'') = Finite (- 16) \<and>
   parseAgeToWeeks (JStr ''9007199254740993 weeks'') = Finite 9007199254740992"
proof -
  have "parseAgeToWeeks (JStr ''12 weeks'') = Finite 12"
    "parseAgeToWeeks (JStr ''12  weeks'') = Finite 0"
    "parseAgeToWeeks (JStr (''12'' @ [CHR 0x09] @ ''weeks'')) = Finite 0"
    "parseAgeToWeeks (JStr ''0x10 weeks'') = Finite 16"
    "parseAgeToWeeks (JStr ''-0x10 weeks'') = Finite (- 16)"
    by code_simp+
  then show ?thesis
    by (simp only: parseAgeToWeeks_beyond_2_53)
qed

end
